theory Spec2Isabelle
  imports Complex_Main
begin

section \<open>Ground heat exchangers (GroundHeatExchangers.cc)\<close>

text \<open>
  A shallow embedding of the module \<^verbatim>\<open>GroundHeatExchangers\<close>. \<^verbatim>\<open>Real64\<close> is read as
  \<^typ>\<open>real\<close> (exact arithmetic), \<^verbatim>\<open>int\<close> as \<^typ>\<open>int\<close>, and an \<^verbatim>\<open>FArray1D\<close> as a
  list that is indexed from 1. The functions of the C++ standard library are read as
  the mathematical functions they approximate.
\<close>

subsection \<open>Scalars and arrays\<close>

definition toInt :: "real \<Rightarrow> int" where
  \<comment> \<open>The conversion of a \<^verbatim>\<open>Real64\<close> to \<^verbatim>\<open>int\<close>: truncation toward zero.\<close>
  "toInt x = (if 0 \<le> x then \<lfloor>x\<rfloor> else \<lceil>x\<rceil>)"

definition cdiv :: "int \<Rightarrow> int \<Rightarrow> int" where
  \<comment> \<open>\<^verbatim>\<open>a / b\<close> on \<^verbatim>\<open>int\<close>: the quotient truncated toward zero.\<close>
  "cdiv a b = (if (a < 0) = (b < 0) then \<bar>a\<bar> div \<bar>b\<bar> else - (\<bar>a\<bar> div \<bar>b\<bar>))"

definition fmod :: "real \<Rightarrow> real \<Rightarrow> real" where
  \<comment> \<open>\<^verbatim>\<open>mod( x, y )\<close> on \<^verbatim>\<open>Real64\<close>: the remainder with the sign of \<^verbatim>\<open>x\<close>.\<close>
  "fmod x y = x - of_int (toInt (x / y)) * y"

definition at1 :: "'a list \<Rightarrow> int \<Rightarrow> 'a" where
  \<comment> \<open>\<^verbatim>\<open>A( i )\<close>: the element at index \<^verbatim>\<open>i\<close>, counted from 1.\<close>
  "at1 A i = A ! nat (i - 1)"

definition put1 :: "'a list \<Rightarrow> int \<Rightarrow> 'a \<Rightarrow> 'a list" where
  \<comment> \<open>\<^verbatim>\<open>A( i ) = v\<close>.\<close>
  "put1 A i v = (if 1 \<le> i then A[nat (i - 1) := v] else A)"

definition eoshift :: "'a list \<Rightarrow> 'a \<Rightarrow> 'a list" where
  \<comment> \<open>\<^verbatim>\<open>eoshift( A, -1, b )\<close>: every element moves one place up, the last one is dropped
      and \<^verbatim>\<open>b\<close> enters at index 1.\<close>
  "eoshift A b = (if A = [] then [] else b # butlast A)"

definition fill :: "'a list \<Rightarrow> 'a \<Rightarrow> 'a list" where
  \<comment> \<open>\<^verbatim>\<open>A = v\<close>: the scalar is assigned to every element.\<close>
  "fill A v = replicate (length A) v"

subsection \<open>The data of a heat exchanger\<close>

text \<open>
  The members of \<^verbatim>\<open>GLHEBase\<close> that the functions below read or write. The field
  \<open>gFuncCalls\<close> is not a member of the class: it counts the completed calls of
  \<^verbatim>\<open>calcGFunctions\<close> on the object and is never read by the model.
\<close>

record GLHEBase =
  name :: string
  inletNodeNum :: int
  outletNodeNum :: int
  designFlow :: real
  designMassFlow :: real
  tempGround :: real
  kGround :: real
  cpRhoGround :: real
  diffusivityGround :: real
  kPipe :: real
  pipeOutDia :: real
  pipeThick :: real
  maxSimYears :: real
  totalTubeLength :: real
  timeSS :: real
  timeSSFactor :: real
  AGG :: int
  SubAGG :: int
  NPairs :: int
  LNTTS :: "real list"
  GFNC :: "real list"
  QnMonthlyAgg :: "real list"
  QnHr :: "real list"
  QnSubHr :: "real list"
  LastHourN :: "int list"
  prevHour :: int
  lastQnSubHr :: real
  HXResistance :: real
  massFlowRate :: real
  inletTemp :: real
  outletTemp :: real
  QGLHE :: real
  aveFluidTemp :: real
  boreholeTemp :: real
  myFlag :: bool
  myEnvrnFlag :: bool
  gFuncCalls :: nat

subsection \<open>Interpolation in the g-function table\<close>

text \<open>
  The binary search of \<^verbatim>\<open>interpGFunc\<close>. The result is the flag \<^verbatim>\<open>Found\<close> and the last
  value of \<^verbatim>\<open>Mid\<close>; the loop is left at once when the entry is found.
\<close>

function binSearch :: "real list \<Rightarrow> real \<Rightarrow> int \<Rightarrow> int \<Rightarrow> int \<Rightarrow> bool \<times> int" where
  "binSearch L x Low High Mid =
     (if Low \<le> High then
        (let Mid' = cdiv (Low + High) 2 in
         if at1 L Mid' < x then binSearch L x (Mid' + 1) High Mid'
         else if at1 L Mid' > x then binSearch L x Low (Mid' - 1) Mid'
         else (True, Mid'))
      else (False, Mid))"
  by pat_completeness auto
termination
  by (relation "measure (\<lambda>(L, x, Low, High, Mid). nat (High + 1 - Low))")
    (auto simp: cdiv_def)

definition interpGFunc :: "'a GLHEBase_scheme \<Rightarrow> real \<Rightarrow> real" where
  "interpGFunc d LnTTsVal =
    (let L = LNTTS d; G = GFNC d; n = NPairs d in
     if LnTTsVal \<le> at1 L 1 then
       ((LnTTsVal - at1 L 1) / (at1 L 2 - at1 L 1)) * (at1 G 2 - at1 G 1) + at1 G 1
     else if LnTTsVal > at1 L n then
       ((LnTTsVal - at1 L n) / (at1 L (n - 1) - at1 L n)) * (at1 G (n - 1) - at1 G n) + at1 G n
     else
       (case binSearch L LnTTsVal 1 n 0 of
          (Found, Mid) \<Rightarrow>
            if Found then at1 G Mid
            else
              (let Mid = (if at1 L Mid < LnTTsVal then Mid + 1 else Mid) in
               ((LnTTsVal - at1 L Mid) / (at1 L (Mid - 1) - at1 L Mid))
                 * (at1 G (Mid - 1) - at1 G Mid) + at1 G Mid)))"

subsection \<open>Module variables and the simulation clock\<close>

text \<open>
  The variables of the namespace (\<^verbatim>\<open>N\<close>, \<^verbatim>\<open>currentSimTime\<close>, \<^verbatim>\<open>locHourOfDay\<close>,
  \<^verbatim>\<open>locDayOfSim\<close>, \<^verbatim>\<open>prevTimeSteps\<close>), the \<^verbatim>\<open>static\<close> locals of
  \<^verbatim>\<open>calcGroundHeatExchanger\<close> (\<^verbatim>\<open>ToutNew\<close>, \<^verbatim>\<open>PrevN\<close>, \<^verbatim>\<open>updateCurSimTime\<close>,
  \<^verbatim>\<open>triggerDesignDayReset\<close>, \<^verbatim>\<open>firstTime\<close>) and of \<^verbatim>\<open>updateGHX\<close> (\<^verbatim>\<open>numErrorCalls\<close>),
  and the temperatures of the plant nodes (\<^verbatim>\<open>Node( i ).Temp\<close>). All of them are shared by
  every heat exchanger of the run.
\<close>

record Module =
  N :: int
  currentSimTime :: real
  locHourOfDay :: int
  locDayOfSim :: int
  prevTimeSteps :: "real list"
  ToutNew :: real
  PrevN :: int
  updateCurSimTime :: bool
  triggerDesignDayReset :: bool
  firstTime :: bool
  numErrorCalls :: int
  NodeTemp :: "int \<Rightarrow> real"

text \<open>
  What the module reads from the rest of the program: the clock of \<^verbatim>\<open>DataGlobals\<close> and
  \<^verbatim>\<open>DataHVACGlobals\<close>, and the properties of the loop's fluid as functions of the
  temperature (\<^verbatim>\<open>GetSpecificHeatGlycol\<close>, \<^verbatim>\<open>GetDensityGlycol\<close>, \<^verbatim>\<open>GetViscosityGlycol\<close>,
  \<^verbatim>\<open>GetConductivityGlycol\<close>); whether \<^verbatim>\<open>ScanPlantLoopsForObject\<close> fails to find the
  named component; and the flow that \<^verbatim>\<open>RegulateCondenserCompFlowReqOp\<close> and
  \<^verbatim>\<open>SetComponentFlowRate\<close> grant the named component for a design flow.
\<close>

record Extern =
  DayOfSim :: int
  HourOfDay :: int
  TimeStep :: int
  TimeStepZone :: real
  SysTimeElapsed :: real
  WarmupFlag :: bool
  BeginEnvrnFlag :: bool
  cpGlycol :: "real \<Rightarrow> real"
  rhoGlycol :: "real \<Rightarrow> real"
  muGlycol :: "real \<Rightarrow> real"
  kGlycol :: "real \<Rightarrow> real"
  scanErrFlag :: "string \<Rightarrow> bool"
  plantFlow :: "string \<Rightarrow> real \<Rightarrow> real"

definition hrsPerDay :: real where "hrsPerDay = 24.0"
definition hrsPerMonth :: real where "hrsPerMonth = 730.0"
definition maxTSinHr :: int where "maxTSinHr = 60"
definition SecInHour :: real where "SecInHour = 3600.0"

subsection \<open>Counted loops\<close>

text \<open>
  \<^verbatim>\<open>for ( I = a; I <= limit; ++I ) acc += body( I )\<close>. The result is the sum and the value
  of the counter after the loop.
\<close>

function forSum :: "int \<Rightarrow> int \<Rightarrow> (int \<Rightarrow> real) \<Rightarrow> real \<Rightarrow> real \<times> int" where
  "forSum I limit body acc =
     (if I \<le> limit then forSum (I + 1) limit body (acc + body I) else (acc, I))"
  by pat_completeness auto
termination
  by (relation "measure (\<lambda>(I, limit, body, acc). nat (limit + 1 - I))") auto

declare forSum.simps [simp del]

subsection \<open>Aggregation of the load history\<close>

text \<open>
  The hourly load of \<^verbatim>\<open>calcAggregateLoad\<close>: the sub-hourly loads since the last hour,
  each weighted with the length of its time step, over the time since the last hour.
\<close>

definition SumQnHr :: "'m Module_scheme \<Rightarrow> 'a GLHEBase_scheme \<Rightarrow> real" where
  "SumQnHr g d =
    (case forSum 1 (N g - at1 (LastHourN d) 1)
            (\<lambda>J. at1 (QnSubHr d) J * \<bar>at1 (prevTimeSteps g) J - at1 (prevTimeSteps g) (J + 1)\<bar>) 0 of
       (S, J) \<Rightarrow> S / \<bar>at1 (prevTimeSteps g) 1 - at1 (prevTimeSteps g) J\<bar>)"

definition calcAggregateLoad :: "'m Module_scheme \<Rightarrow> 'a GLHEBase_scheme \<Rightarrow> 'a GLHEBase_scheme" where
  "calcAggregateLoad g d =
    (if currentSimTime g \<le> 0 then d
     else
      (let d1 = (if prevHour d \<noteq> locHourOfDay g
                 then d \<lparr> QnHr := eoshift (QnHr d) (SumQnHr g d),
                         LastHourN := eoshift (LastHourN d) (N g) \<rparr>
                 else d);
           d2 = (if fmod (of_int (locDayOfSim g - 1) * hrsPerDay + of_int (locHourOfDay g)) hrsPerMonth = 0
                     \<and> prevHour d1 \<noteq> locHourOfDay g
                 then
                   (let MonthNum = toInt ((of_int (locDayOfSim g) * hrsPerDay + of_int (locHourOfDay g)) / hrsPerMonth);
                        SumQnMonth = fst (forSum 1 (toInt hrsPerMonth) (\<lambda>J. at1 (QnHr d1) J) 0) / hrsPerMonth
                    in d1 \<lparr> QnMonthlyAgg := put1 (QnMonthlyAgg d1) MonthNum SumQnMonth \<rparr>)
                 else d1)
       in (if prevHour d2 \<noteq> locHourOfDay g then d2 \<lparr> prevHour := locHourOfDay g \<rparr> else d2)))"

subsection \<open>The thermal response\<close>

definition kGroundFactor :: "'a GLHEBase_scheme \<Rightarrow> real" where
  "kGroundFactor d = 2.0 * pi * kGround d"

definition RQ :: "'a GLHEBase_scheme \<Rightarrow> real \<Rightarrow> real" where
  \<comment> \<open>\<^verbatim>\<open>XI = log( dt / timeSSFactor ); gFuncVal = interpGFunc( XI ); gFuncVal / kGroundFactor\<close>\<close>
  "RQ d dt = interpGFunc d (ln (dt / timeSSFactor d)) / kGroundFactor d"

text \<open>The branch \<^verbatim>\<open>N == 1\<close>: the result is \<^verbatim>\<open>tmpQnSubHourly\<close>, \<^verbatim>\<open>fluidAveTemp\<close>, \<^verbatim>\<open>ToutNew\<close>.\<close>

definition firstStep :: "'m Module_scheme \<Rightarrow> 'a GLHEBase_scheme \<Rightarrow> real \<Rightarrow> real \<times> real \<times> real" where
  "firstStep g d cpFluid =
    (if massFlowRate d \<le> 0 then (0, tempGround d, inletTemp d)
     else
      (let XI = ln (currentSimTime g / timeSSFactor d);
           gFuncVal = interpGFunc d XI;
           C_1 = totalTubeLength d / (2.0 * massFlowRate d * cpFluid);
           tmpQnSubHourly = (tempGround d - inletTemp d)
               / (gFuncVal / kGroundFactor d + HXResistance d + C_1);
           fluidAveTemp = tempGround d - tmpQnSubHourly * HXResistance d;
           ToutNew = tempGround d - tmpQnSubHourly * (gFuncVal / kGroundFactor d + HXResistance d - C_1)
       in (tmpQnSubHourly, fluidAveTemp, ToutNew)))"

text \<open>
  The end of the two branches \<^verbatim>\<open>N != 1\<close>, which is the same text in both: the response to
  the load of the last time step and the explicit equations for the outlet temperature.
\<close>

definition lastStep :: "'m Module_scheme \<Rightarrow> 'a GLHEBase_scheme \<Rightarrow> real \<Rightarrow> real \<Rightarrow> real \<times> real \<times> real" where
  "lastStep g d cpFluid sumTotal =
    (let RQSubHr = RQ d (currentSimTime g - at1 (prevTimeSteps g) 2) in
     if massFlowRate d \<le> 0 then (0, tempGround d - sumTotal, inletTemp d)
     else
      (let C0 = RQSubHr;
           C1 = tempGround d - (sumTotal - at1 (QnSubHr d) 1 * RQSubHr);
           C2 = totalTubeLength d / (2.0 * massFlowRate d * cpFluid);
           C3 = massFlowRate d * cpFluid / totalTubeLength d;
           tmpQnSubHourly = (C1 - inletTemp d) / (HXResistance d + C0 - C2 + (1 / C3));
           fluidAveTemp = C1 - (C0 + HXResistance d) * tmpQnSubHourly;
           ToutNew = C1 + (C2 - C0 - HXResistance d) * tmpQnSubHourly
       in (tmpQnSubHourly, fluidAveTemp, ToutNew)))"

text \<open>The superposition without monthly aggregation.\<close>

definition sumNoAggregation :: "'m Module_scheme \<Rightarrow> 'a GLHEBase_scheme \<Rightarrow> real" where
  "sumNoAggregation g d =
    (let t = currentSimTime g;
         IndexN = (if toInt t < SubAGG d then toInt t + 1 else SubAGG d + 1);
         subHourlyLimit = N g - at1 (LastHourN d) IndexN;
         sumQnSubHourly = fst (forSum 1 subHourlyLimit
           (\<lambda>I. if I = subHourlyLimit then
                   (if toInt t \<ge> SubAGG d
                    then (at1 (QnSubHr d) I - at1 (QnHr d) IndexN) * RQ d (t - at1 (prevTimeSteps g) (I + 1))
                    else at1 (QnSubHr d) I * RQ d (t - at1 (prevTimeSteps g) (I + 1)))
                 else (at1 (QnSubHr d) I - at1 (QnSubHr d) (I + 1)) * RQ d (t - at1 (prevTimeSteps g) (I + 1))) 0);
         hourlyLimit = toInt t;
         sumQnHourly = fst (forSum (SubAGG d + 1) hourlyLimit
           (\<lambda>I. if I = hourlyLimit then at1 (QnHr d) I * RQ d t
                 else (at1 (QnHr d) I - at1 (QnHr d) (I + 1)) * RQ d (t - of_int (toInt t) + of_int I)) 0)
     in sumQnSubHourly + sumQnHourly)"

text \<open>The superposition with monthly aggregation.\<close>

definition sumAggregation :: "'m Module_scheme \<Rightarrow> 'a GLHEBase_scheme \<Rightarrow> real" where
  "sumAggregation g d =
    (let t = currentSimTime g;
         numOfMonths = toInt ((t + 1) / hrsPerMonth);
         currentMonth = (if t < of_int numOfMonths * hrsPerMonth + of_int (AGG d) + of_int (SubAGG d)
                         then numOfMonths - 1 else numOfMonths);
         sumQnMonthly = fst (forSum 1 currentMonth
           (\<lambda>I. if I = 1 then at1 (QnMonthlyAgg d) I * RQ d t
                 else (at1 (QnMonthlyAgg d) I - at1 (QnMonthlyAgg d) (I - 1))
                        * RQ d (t - of_int (I - 1) * hrsPerMonth)) 0);
         hourlyLimit = toInt (t - of_int currentMonth * hrsPerMonth);
         sumQnHourly = fst (forSum (1 + SubAGG d) hourlyLimit
           (\<lambda>I. if I = hourlyLimit
                 then (at1 (QnHr d) I - at1 (QnMonthlyAgg d) currentMonth) * RQ d (t - of_int (toInt t) + of_int I)
                 else (at1 (QnHr d) I - at1 (QnHr d) (I + 1)) * RQ d (t - of_int (toInt t) + of_int I)) 0);
         subHourlyLimit = N g - at1 (LastHourN d) (SubAGG d + 1);
         sumQnSubHourly = fst (forSum 1 subHourlyLimit
           (\<lambda>I. if I = subHourlyLimit
                 then (at1 (QnSubHr d) I - at1 (QnHr d) (SubAGG d + 1)) * RQ d (t - at1 (prevTimeSteps g) (I + 1))
                 else (at1 (QnSubHr d) I - at1 (QnSubHr d) (I + 1)) * RQ d (t - at1 (prevTimeSteps g) (I + 1))) 0)
     in sumQnMonthly + sumQnHourly + sumQnSubHourly)"

text \<open>
  \<^verbatim>\<open>sumTotal\<close>: the sum of the temperature differences due to all load blocks of the
  history. It keeps its initial value 0 in the branch \<^verbatim>\<open>N == 1\<close>.
\<close>

definition sumTotal :: "'m Module_scheme \<Rightarrow> 'a GLHEBase_scheme \<Rightarrow> real" where
  "sumTotal g d =
    (if N g = 1 then 0
     else if currentSimTime g < hrsPerMonth + of_int (AGG d) + of_int (SubAGG d)
     then sumNoAggregation g d
     else sumAggregation g d)"

definition respond :: "'m Module_scheme \<Rightarrow> 'a GLHEBase_scheme \<Rightarrow> real \<Rightarrow> real \<times> real \<times> real" where
  "respond g d cpFluid =
    (if N g = 1 then firstStep g d cpFluid else lastStep g d cpFluid (sumTotal g d))"

text \<open>
  \<^verbatim>\<open>calcGroundHeatExchanger\<close>. The three virtual functions of the class are arguments;
  the two subclasses supply them below.
\<close>

definition resetHistory :: "Extern \<Rightarrow> 'm Module_scheme \<times> 'a GLHEBase_scheme \<Rightarrow> 'm Module_scheme \<times> 'a GLHEBase_scheme" where
  "resetHistory ex = (\<lambda>(g, d).
    (let g = (if triggerDesignDayReset g \<and> WarmupFlag ex then g \<lparr> updateCurSimTime := True \<rparr> else g)
     in if DayOfSim ex = 1 \<and> updateCurSimTime g
        then (g \<lparr> currentSimTime := 0.0, prevTimeSteps := fill (prevTimeSteps g) 0.0, N := 1,
                  updateCurSimTime := False, triggerDesignDayReset := False \<rparr>,
              d \<lparr> QnHr := fill (QnHr d) 0.0, QnMonthlyAgg := fill (QnMonthlyAgg d) 0.0,
                  QnSubHr := fill (QnSubHr d) 0.0, LastHourN := fill (LastHourN d) 1 \<rparr>)
        else (g, d)))"

definition simTime :: "Extern \<Rightarrow> real" where
  "simTime ex = of_int ((DayOfSim ex - 1) * 24 + HourOfDay ex - 1)
                 + of_int (TimeStep ex - 1) * TimeStepZone ex + SysTimeElapsed ex"

definition setClock :: "Extern \<Rightarrow> 'm Module_scheme \<Rightarrow> 'm Module_scheme" where
  "setClock ex g =
    (let g = g \<lparr> currentSimTime := simTime ex \<rparr>;
         g = g \<lparr> locHourOfDay := toInt (fmod (currentSimTime g) hrsPerDay + 1) \<rparr>;
         g = g \<lparr> locDayOfSim := toInt (currentSimTime g / 24 + 1) \<rparr>;
         g = (if DayOfSim ex > 1 then g \<lparr> updateCurSimTime := True \<rparr> else g)
     in (if \<not> WarmupFlag ex then g \<lparr> triggerDesignDayReset := True \<rparr> else g))"

definition pushStep :: "'m Module_scheme \<times> 'a GLHEBase_scheme \<Rightarrow> 'm Module_scheme \<times> 'a GLHEBase_scheme" where
  "pushStep = (\<lambda>(g, d).
    (let g = (if at1 (prevTimeSteps g) 1 \<noteq> currentSimTime g
              then g \<lparr> prevTimeSteps := eoshift (prevTimeSteps g) (currentSimTime g), N := N g + 1 \<rparr>
              else g)
     in if N g \<noteq> PrevN g
        then (g \<lparr> PrevN := N g \<rparr>, d \<lparr> QnSubHr := eoshift (QnSubHr d) (lastQnSubHr d) \<rparr>)
        else (g, d)))"

definition calcGroundHeatExchanger ::
  "('a GLHEBase_scheme \<Rightarrow> 'a GLHEBase_scheme) \<Rightarrow> ('a GLHEBase_scheme \<Rightarrow> 'a GLHEBase_scheme)
    \<Rightarrow> (Extern \<Rightarrow> 'a GLHEBase_scheme \<Rightarrow> 'a GLHEBase_scheme)
    \<Rightarrow> Extern \<Rightarrow> 'm Module_scheme \<times> 'a GLHEBase_scheme \<Rightarrow> 'm Module_scheme \<times> 'a GLHEBase_scheme" where
  "calcGroundHeatExchanger calcGFunctions getAnnualTimeConstant calcHXResistance ex = (\<lambda>(g, d).
    (let d = (if firstTime g then calcGFunctions d else d);
         g = g \<lparr> firstTime := False \<rparr>;
         d = d \<lparr> inletTemp := NodeTemp g (inletNodeNum d) \<rparr>;
         cpFluid = cpGlycol ex (inletTemp d);
         d = getAnnualTimeConstant d;
         (g, d) = resetHistory ex (g, d);
         g = setClock ex g
     in if currentSimTime g \<le> 0.0
        then
          (let g = g \<lparr> prevTimeSteps := fill (prevTimeSteps g) 0.0 \<rparr>;
               d = d \<lparr> outletTemp := inletTemp d \<rparr>
           in (g, calcAggregateLoad g d))
        else
          (let (g, d) = pushStep (g, d);
               d = calcAggregateLoad g d;
               d = calcHXResistance ex d;
               (tmpQnSubHourly, fluidAveTemp, Tout) = respond g d cpFluid;
               g = g \<lparr> ToutNew := Tout \<rparr>;
               d = d \<lparr> boreholeTemp := tempGround d - sumTotal g d \<rparr>;
               d = d \<lparr> lastQnSubHr := tmpQnSubHourly \<rparr>;
               d = d \<lparr> outletTemp := ToutNew g \<rparr>;
               d = d \<lparr> QGLHE := tmpQnSubHourly * totalTubeLength d \<rparr>;
               d = d \<lparr> aveFluidTemp := fluidAveTemp \<rparr>
           in (g, d))))"

subsection \<open>Vertical boreholes\<close>

record GLHEVert = GLHEBase +
  numBoreholes :: int
  boreholeLength :: real
  boreholeRadius :: real
  kGrout :: real
  UtubeDist :: real
  gReferenceRatio :: real

definition GLHEVert_calcGFunctions :: "'a GLHEVert_scheme \<Rightarrow> 'a GLHEVert_scheme" where
  \<comment> \<open>The body is empty: the table of a vertical heat exchanger is read from the input.\<close>
  "GLHEVert_calcGFunctions d = d \<lparr> gFuncCalls := gFuncCalls d + 1 \<rparr>"

definition GLHEVert_getAnnualTimeConstant :: "'a GLHEVert_scheme \<Rightarrow> 'a GLHEVert_scheme" where
  "GLHEVert_getAnnualTimeConstant d =
    (let d = d \<lparr> timeSS := ((boreholeLength d)\<^sup>2 / (9.0 * diffusivityGround d)) / SecInHour / 8760.0 \<rparr>
     in d \<lparr> timeSSFactor := timeSS d * 8760.0 \<rparr>)"

definition GLHEVert_calcHXResistance :: "Extern \<Rightarrow> 'a GLHEVert_scheme \<Rightarrow> 'a GLHEVert_scheme" where
  "GLHEVert_calcHXResistance ex d =
    (let cpFluid = cpGlycol ex (inletTemp d);
         kFluid = kGlycol ex (inletTemp d);
         fluidDensity = rhoGlycol ex (inletTemp d);
         fluidViscosity = muGlycol ex (inletTemp d);
         BholeMdot = massFlowRate d / of_int (numBoreholes d);
         pipeOuterRad = pipeOutDia d / 2.0;
         pipeInnerRad = pipeOuterRad - pipeThick d;
         pipeInnerDia = 2.0 * pipeInnerRad;
         Rconv =
           (if BholeMdot = 0.0 then 0.0
            else
             (let reynoldsNum = fluidDensity * pipeInnerDia
                     * (BholeMdot / fluidDensity / (pi * pipeInnerRad\<^sup>2)) / fluidViscosity;
                  prandtlNum = (cpFluid * fluidViscosity) / kFluid;
                  nusseltNum = 0.023 * (reynoldsNum powr 0.8) * (prandtlNum powr 0.35);
                  hci = nusseltNum * kFluid / pipeInnerDia
              in 1.0 / (2.0 * pi * pipeInnerDia * hci)));
         Rcond = ln (pipeOuterRad / pipeInnerRad) / (2.0 * pi * kPipe d) / 2.0;
         maxDistance = 2.0 * boreholeRadius d - (2.0 * pipeOutDia d);
         distanceRatio = UtubeDist d / maxDistance;
         (B0, B1) =
           (if distanceRatio \<ge> 0.0 \<and> distanceRatio \<le> 0.25 then (14.450872, - 0.8176)
            else if distanceRatio > 0.25 \<and> distanceRatio < 0.5 then (20.100377, - 0.94467)
            else if distanceRatio \<ge> 0.5 \<and> distanceRatio \<le> 0.75 then (17.44268, - 0.605154)
            else (21.90587, - 0.3796));
         Rgrout = 1.0 / (kGrout d * (B0 * ((boreholeRadius d / pipeOuterRad) powr B1)))
     in d \<lparr> HXResistance := Rcond + Rconv + Rgrout \<rparr>)"

definition GLHEVert_calcGroundHeatExchanger ::
  "Extern \<Rightarrow> 'm Module_scheme \<times> 'a GLHEVert_scheme \<Rightarrow> 'm Module_scheme \<times> 'a GLHEVert_scheme" where
  "GLHEVert_calcGroundHeatExchanger =
     calcGroundHeatExchanger GLHEVert_calcGFunctions GLHEVert_getAnnualTimeConstant
       GLHEVert_calcHXResistance"

subsection \<open>Slinky coils\<close>

record GLHESlinky = GLHEBase +
  verticalConfig :: bool
  coilDiameter :: real
  coilPitch :: real
  coilDepth :: real
  trenchDepth :: real
  trenchLength :: real
  trenchSpacing :: real
  numTrenches :: int
  numCoils :: int
  X0 :: "real list"
  Y0 :: "real list"
  Z0 :: real
  useGroundTempDataForKusuda :: bool
  averageGroundTemp :: real
  averageGroundTempAmplitude :: real
  phaseShiftOfMinGroundTempDays :: real

definition erfc :: "real \<Rightarrow> real" where
  \<comment> \<open>\<^verbatim>\<open>std::erfc\<close>: the complementary error function, from the power series of the
      error function.\<close>
  "erfc x = 1 - (2 / sqrt pi) * (\<Sum>k. (- 1) ^ k * x ^ (2 * k + 1) / (fact k * of_nat (2 * k + 1)))"

definition isEven :: "int \<Rightarrow> bool" where
  "isEven val = (if val mod 2 = 0 then True else False)"

definition distToCenter :: "'a GLHESlinky_scheme \<Rightarrow> int \<Rightarrow> int \<Rightarrow> int \<Rightarrow> int \<Rightarrow> real" where
  "distToCenter d m n m1 n1 =
     sqrt ((at1 (X0 d) n - at1 (X0 d) n1)\<^sup>2 + (at1 (Y0 d) m - at1 (Y0 d) m1)\<^sup>2)"

definition distance :: "'a GLHESlinky_scheme \<Rightarrow> int \<Rightarrow> int \<Rightarrow> int \<Rightarrow> int \<Rightarrow> real \<Rightarrow> real \<Rightarrow> real" where
  "distance d m n m1 n1 eta theta =
    (let pipeOuterRadius = pipeOutDia d / 2.0;
         x = at1 (X0 d) n + cos theta * (coilDiameter d / 2.0);
         y = at1 (Y0 d) m + sin theta * (coilDiameter d / 2.0);
         xIn = at1 (X0 d) n1 + cos eta * (coilDiameter d / 2.0 - pipeOuterRadius);
         yIn = at1 (Y0 d) m1 + sin eta * (coilDiameter d / 2.0 - pipeOuterRadius);
         xOut = at1 (X0 d) n1 + cos eta * (coilDiameter d / 2.0 + pipeOuterRadius);
         yOut = at1 (Y0 d) m1 + sin eta * (coilDiameter d / 2.0 + pipeOuterRadius)
     in if \<not> verticalConfig d then
          0.5 * sqrt ((x - xIn)\<^sup>2 + (y - yIn)\<^sup>2) + 0.5 * sqrt ((x - xOut)\<^sup>2 + (y - yOut)\<^sup>2)
        else
         (let z = Z0 d + sin theta * (coilDiameter d / 2.0);
              zIn = Z0 d + sin eta * (coilDiameter d / 2.0 - pipeOuterRadius);
              zOut = Z0 d + sin eta * (coilDiameter d / 2.0 + pipeOuterRadius)
          in 0.5 * sqrt ((x - xIn)\<^sup>2 + (at1 (Y0 d) m1 - at1 (Y0 d) m)\<^sup>2 + (z - zIn)\<^sup>2)
             + 0.5 * sqrt ((x - xOut)\<^sup>2 + (at1 (Y0 d) m1 - at1 (Y0 d) m)\<^sup>2 + (z - zOut)\<^sup>2)))"

definition distanceToFictRing :: "'a GLHESlinky_scheme \<Rightarrow> int \<Rightarrow> int \<Rightarrow> int \<Rightarrow> int \<Rightarrow> real \<Rightarrow> real \<Rightarrow> real" where
  "distanceToFictRing d m n m1 n1 eta theta =
    (let pipeOuterRadius = pipeOutDia d / 2.0;
         x = at1 (X0 d) n + cos theta * (coilDiameter d / 2.0);
         y = at1 (Y0 d) m + sin theta * (coilDiameter d / 2.0);
         z = Z0 d + sin theta * (coilDiameter d / 2.0) + 2 * coilDepth d;
         xIn = at1 (X0 d) n1 + cos eta * (coilDiameter d / 2.0 - pipeOuterRadius);
         yIn = at1 (Y0 d) m1 + sin eta * (coilDiameter d / 2.0 - pipeOuterRadius);
         zIn = Z0 d + sin eta * (coilDiameter d / 2.0 - pipeOuterRadius);
         xOut = at1 (X0 d) n1 + cos eta * (coilDiameter d / 2.0 + pipeOuterRadius);
         yOut = at1 (Y0 d) m1 + sin eta * (coilDiameter d / 2.0 + pipeOuterRadius);
         zOut = Z0 d + sin eta * (coilDiameter d / 2.0 + pipeOuterRadius)
     in 0.5 * sqrt ((x - xIn)\<^sup>2 + (at1 (Y0 d) m1 - at1 (Y0 d) m)\<^sup>2 + (z - zIn)\<^sup>2)
        + 0.5 * sqrt ((x - xOut)\<^sup>2 + (at1 (Y0 d) m1 - at1 (Y0 d) m)\<^sup>2 + (z - zOut)\<^sup>2))"

definition nearFieldResponseFunction ::
  "'a GLHESlinky_scheme \<Rightarrow> int \<Rightarrow> int \<Rightarrow> int \<Rightarrow> int \<Rightarrow> real \<Rightarrow> real \<Rightarrow> real \<Rightarrow> real" where
  "nearFieldResponseFunction d m n m1 n1 eta theta t =
    (let distance1 = distance d m n m1 n1 eta theta;
         sqrtAlphaT = sqrt (diffusivityGround d * t)
     in if \<not> verticalConfig d then
         (let sqrtDistDepth = sqrt (distance1\<^sup>2 + 4 * (coilDepth d)\<^sup>2);
              errFunc1 = erfc (0.5 * distance1 / sqrtAlphaT);
              errFunc2 = erfc (0.5 * sqrtDistDepth / sqrtAlphaT)
          in errFunc1 / distance1 - errFunc2 / sqrtDistDepth)
        else
         (let distance2 = distanceToFictRing d m n m1 n1 eta theta;
              errFunc1 = erfc (0.5 * distance1 / sqrtAlphaT);
              errFunc2 = erfc (0.5 * distance2 / sqrtAlphaT)
          in errFunc1 / distance1 - errFunc2 / distance2))"

definition midFieldResponseFunction ::
  "'a GLHESlinky_scheme \<Rightarrow> int \<Rightarrow> int \<Rightarrow> int \<Rightarrow> int \<Rightarrow> real \<Rightarrow> real" where
  "midFieldResponseFunction d m n m1 n1 t =
    (let sqrtAlphaT = sqrt (diffusivityGround d * t);
         distance = distToCenter d m n m1 n1;
         sqrtDistDepth = sqrt (distance\<^sup>2 + 4 * (coilDepth d)\<^sup>2);
         errFunc1 = erfc (0.5 * distance / sqrtAlphaT);
         errFunc2 = erfc (0.5 * sqrtDistDepth / sqrtAlphaT)
     in 4 * pi\<^sup>2 * errFunc1 / distance - errFunc2 / sqrtDistDepth)"

text \<open>
  Simpson's 1/3 rule, as both integrals apply it: the value at node \<^verbatim>\<open>j\<close> of \<^verbatim>\<open>J0\<close> counts
  once at the two ends, four times at an even node and twice at an odd one.
\<close>

definition simpsonTerm :: "int \<Rightarrow> real \<Rightarrow> real \<Rightarrow> real" where
  "simpsonTerm j J0 f =
     (if of_int j = (1::real) \<or> of_int j = J0 then f else if isEven j then 4 * f else 2 * f)"

definition integral ::
  "'a GLHESlinky_scheme \<Rightarrow> int \<Rightarrow> int \<Rightarrow> int \<Rightarrow> int \<Rightarrow> real \<Rightarrow> real \<Rightarrow> real \<Rightarrow> real" where
  "integral d m n m1 n1 t eta J0 =
    (let theta1 = 0.0; theta2 = 2 * pi;
         h = (theta2 - theta1) / (J0 - 1);
         sumIntF = fst (forSum 1 \<lfloor>J0\<rfloor>
           (\<lambda>j. simpsonTerm j J0
                   (nearFieldResponseFunction d m n m1 n1 eta (theta1 + of_int (j - 1) * h) t)) 0.0)
     in (h / 3) * sumIntF)"

definition doubleIntegral ::
  "'a GLHESlinky_scheme \<Rightarrow> int \<Rightarrow> int \<Rightarrow> int \<Rightarrow> int \<Rightarrow> real \<Rightarrow> int \<Rightarrow> int \<Rightarrow> real" where
  "doubleIntegral d m n m1 n1 t I0 J0 =
    (let eta1 = 0.0; eta2 = 2 * pi;
         h = (eta2 - eta1) / of_int (I0 - 1);
         sumIntF = fst (forSum 1 I0
           (\<lambda>i. simpsonTerm i (of_int I0)
                   (integral d m n m1 n1 t (eta1 + of_int (i - 1) * h) (of_int J0))) 0.0)
     in (h / 3) * sumIntF)"

text \<open>
  \<^verbatim>\<open>for ( I = a; I <= limit; ++I ) body\<close> on a state.
\<close>

function forLoop :: "int \<Rightarrow> int \<Rightarrow> (int \<Rightarrow> 's \<Rightarrow> 's) \<Rightarrow> 's \<Rightarrow> 's" where
  "forLoop I limit body s = (if I \<le> limit then forLoop (I + 1) limit body (body I s) else s)"
  by pat_completeness auto
termination
  by (relation "measure (\<lambda>(I, limit, body, s). nat (limit + 1 - I))") auto

declare forLoop.simps [simp del]

definition allocate :: "int \<Rightarrow> 'a list" where
  \<comment> \<open>\<^verbatim>\<open>A.allocate( n )\<close>: \<^verbatim>\<open>n\<close> elements, of which nothing is known.\<close>
  "allocate n = replicate (nat n) undefined"

text \<open>
  The weight of the source ring \<^verbatim>\<open>(m1, n1)\<close>: by symmetry only a quarter (or a half) of
  the rings is a source, and a ring on an axis of symmetry counts half or a quarter.
\<close>

definition symmetryWeight :: "'a GLHESlinky_scheme \<Rightarrow> int \<Rightarrow> int \<Rightarrow> int \<Rightarrow> int \<Rightarrow> real" where
  "symmetryWeight d numRC numLC m1 n1 =
    (if \<not> isEven (numTrenches d) \<and> \<not> isEven (numCoils d) \<and> m1 = numRC \<and> n1 = numLC
         \<and> of_int (numTrenches d) > (1.5::real) then 0.25
     else if \<not> isEven (numTrenches d) \<and> m1 = numRC \<and> of_int (numTrenches d) > (1.5::real) then 0.5
     else if \<not> isEven (numCoils d) \<and> n1 = numLC then 0.5
     else 1)"

text \<open>
  The body of the innermost loop of \<^verbatim>\<open>GLHESlinky::calcGFunctions\<close>: the response
  \<^verbatim>\<open>gFuncin\<close> of ring \<^verbatim>\<open>(m, n)\<close> to the source ring \<^verbatim>\<open>(m1, n1)\<close> at time \<^verbatim>\<open>t\<close>, and the
  array \<^verbatim>\<open>valStored\<close> after it. The third component is not in the source: it is the
  number of calls of \<^verbatim>\<open>doubleIntegral\<close> that the body makes.
\<close>

definition ringResponse ::
  "'a GLHESlinky_scheme \<Rightarrow> real \<Rightarrow> int \<Rightarrow> int \<Rightarrow> int \<Rightarrow> int \<Rightarrow> int \<Rightarrow> int
    \<Rightarrow> (int \<times> int \<Rightarrow> real) \<Rightarrow> real \<times> (int \<times> int \<Rightarrow> real) \<times> nat" where
  "ringResponse d t numRC numLC m1 n1 m n valStored =
    (let disRing = distToCenter d m n m1 n1;
         mm1 = \<bar>m - m1\<bar>;
         nn1 = \<bar>n - n1\<bar>;
         (I0, J0) = (if m1 = m \<and> n1 = n then (33, 1089) else (33, 561))
     in if disRing \<le> 2.5 + coilDiameter d then
          (if valStored (mm1, nn1) < 0 then
             (let doubleIntegralVal = doubleIntegral d m n m1 n1 t I0 J0
              in (symmetryWeight d numRC numLC m1 n1 * doubleIntegralVal,
                  valStored ((mm1, nn1) := doubleIntegralVal), 1))
           else
             (let doubleIntegralVal = valStored (mm1, nn1)
              in (symmetryWeight d numRC numLC m1 n1 * doubleIntegralVal, valStored, 0)))
        else if disRing > 10 + coilDiameter d then (0, valStored, 0)
        else
          (if valStored (mm1, nn1) < 0.0 then
             (let midFieldVal = midFieldResponseFunction d m n m1 n1 t
              in (symmetryWeight d numRC numLC m1 n1 * midFieldVal,
                  valStored ((mm1, nn1) := midFieldVal), 0))
           else
             (let midFieldVal = valStored (mm1, nn1)
              in (symmetryWeight d numRC numLC m1 n1 * midFieldVal, valStored, 0))))"

definition convertYearsToSeconds :: real where
  "convertYearsToSeconds = 356 * 24 * 60 * 60"

definition tLg_min :: real where "tLg_min = - 2"
definition tLg_grid :: real where "tLg_grid = 0.25"
definition ts :: real where "ts = 3600"

definition tLg_max :: "'a GLHESlinky_scheme \<Rightarrow> real" where
  "tLg_max d = log 10 (maxSimYears d * convertYearsToSeconds / ts)"

text \<open>The response of the whole field at time \<^verbatim>\<open>t\<close>: the four nested loops over the rings.\<close>

definition fieldResponse :: "'a GLHESlinky_scheme \<Rightarrow> real \<Rightarrow> int \<Rightarrow> int \<Rightarrow> real" where
  "fieldResponse d t numRC numLC =
    snd (forLoop 1 numRC (\<lambda>m1.
          forLoop 1 numLC (\<lambda>n1.
           forLoop 1 (numTrenches d) (\<lambda>m.
            forLoop 1 (numCoils d) (\<lambda>n (valStored, gFunc).
              (case ringResponse d t numRC numLC m1 n1 m n valStored of
                 (gFuncin, valStored, calls) \<Rightarrow> (valStored, gFunc + gFuncin))))))
         (\<lambda>ij. - 1.0, 0))"

definition GLHESlinky_calcGFunctions :: "'a GLHESlinky_scheme \<Rightarrow> 'a GLHESlinky_scheme" where
  "GLHESlinky_calcGFunctions d =
    (let SubAGG = (15.0::real);
         AGG = (192.0::real);
         d = d \<lparr> X0 := allocate (numCoils d), Y0 := allocate (numTrenches d) \<rparr>;
         d = d \<lparr> NPairs := toInt ((tLg_max d - tLg_min) / tLg_grid + 1) \<rparr>;
         d = d \<lparr> GFNC := allocate (NPairs d), LNTTS := allocate (NPairs d),
                 QnMonthlyAgg := allocate (toInt (maxSimYears d * 12)),
                 QnHr := allocate (toInt (730 + AGG + SubAGG)),
                 QnSubHr := allocate (toInt ((SubAGG + 1) * of_int maxTSinHr + 1)),
                 LastHourN := allocate (toInt (SubAGG + 1)) \<rparr>;
         d = forLoop 1 (NPairs d)
               (\<lambda>i d. d \<lparr> GFNC := put1 (GFNC d) i 0.0, LNTTS := put1 (LNTTS d) i 0.0 \<rparr>) d;
         numLC = \<lceil>of_int (numCoils d) / (2.0::real)\<rceil>;
         numRC = \<lceil>of_int (numTrenches d) / (2.0::real)\<rceil>;
         d = forLoop 1 (numCoils d)
               (\<lambda>coil d. d \<lparr> X0 := put1 (X0 d) coil (coilPitch d * of_int (coil - 1)) \<rparr>) d;
         d = forLoop 1 (numTrenches d)
               (\<lambda>trench d. d \<lparr> Y0 := put1 (Y0 d) trench (of_int (trench - 1) * trenchSpacing d) \<rparr>) d;
         d = d \<lparr> Z0 := coilDepth d \<rparr>;
         fraction = (if numTrenches d > 1 then 0.25 else 0.5);
         d = forLoop 1 (NPairs d)
               (\<lambda>NT d.
                  (let tLg = tLg_min + tLg_grid * of_int (NT - 1);
                       t = (10 powr tLg) * ts;
                       gFunc = fieldResponse d t numRC numLC
                   in d \<lparr> GFNC := put1 (GFNC d) NT
                              ((gFunc * (coilDiameter d / 2.0))
                                / (4 * pi * fraction * of_int (numTrenches d) * of_int (numCoils d))),
                           LNTTS := put1 (LNTTS d) NT tLg \<rparr>)) d
     in d \<lparr> gFuncCalls := gFuncCalls d + 1 \<rparr>)"

definition GLHESlinky_getAnnualTimeConstant :: "'a GLHESlinky_scheme \<Rightarrow> 'a GLHESlinky_scheme" where
  "GLHESlinky_getAnnualTimeConstant d =
    (let d = d \<lparr> timeSS := ((totalTubeLength d)\<^sup>2 / (9.0 * diffusivityGround d)) / SecInHour / 8760.0 \<rparr>
     in d \<lparr> timeSSFactor := 1.0 \<rparr>)"

definition GLHESlinky_calcHXResistance :: "Extern \<Rightarrow> 'a GLHESlinky_scheme \<Rightarrow> 'a GLHESlinky_scheme" where
  "GLHESlinky_calcHXResistance ex d =
    (let cpFluid = cpGlycol ex (inletTemp d);
         kFluid = kGlycol ex (inletTemp d);
         fluidDensity = rhoGlycol ex (inletTemp d);
         fluidViscosity = muGlycol ex (inletTemp d);
         singleSlinkyMassFlowRate = massFlowRate d / of_int (numTrenches d);
         pipeOuterRad = pipeOutDia d / 2.0;
         pipeInnerRad = pipeOuterRad - pipeThick d;
         pipeInnerDia = 2.0 * pipeInnerRad;
         Rconv =
           (if singleSlinkyMassFlowRate = 0.0 then 0.0
            else
             (let reynoldsNum = fluidDensity * pipeInnerDia
                     * (singleSlinkyMassFlowRate / fluidDensity / (pi * pipeInnerRad\<^sup>2)) / fluidViscosity;
                  prandtlNum = (cpFluid * fluidViscosity) / kFluid;
                  nusseltNum = 0.023 * (reynoldsNum powr 0.8) * (prandtlNum powr 0.35);
                  hci = nusseltNum * kFluid / pipeInnerDia
              in 1.0 / (2.0 * pi * pipeInnerDia * hci)));
         Rcond = ln (pipeOuterRad / pipeInnerRad) / (2.0 * pi * kPipe d) / 2.0
     in d \<lparr> HXResistance := Rcond + Rconv \<rparr>)"

definition GLHESlinky_calcGroundHeatExchanger ::
  "Extern \<Rightarrow> 'm Module_scheme \<times> 'a GLHESlinky_scheme \<Rightarrow> 'm Module_scheme \<times> 'a GLHESlinky_scheme" where
  "GLHESlinky_calcGroundHeatExchanger =
     calcGroundHeatExchanger GLHESlinky_calcGFunctions GLHESlinky_getAnnualTimeConstant
       GLHESlinky_calcHXResistance"

subsection \<open>Reading the input\<close>

text \<open>
  \<^verbatim>\<open>ShowFatalError\<close> ends the program: a function that may call it returns the message on
  the left. \<^verbatim>\<open>ShowSevereError\<close>, \<^verbatim>\<open>ShowContinueError\<close> and \<^verbatim>\<open>ShowWarningError\<close> only
  write to the error file and are left out, as are the registration of the report
  variables and of the design flow, and the assignments to members that none of the
  functions here reads (\<^verbatim>\<open>available\<close>, \<^verbatim>\<open>on\<close>, \<^verbatim>\<open>rhoPipe\<close>, \<^verbatim>\<open>cpPipe\<close>).
\<close>

datatype fatal = ShowFatalError string

text \<open>
  One object of the input file as \<^verbatim>\<open>GetObjectItem\<close> returns it, and what the module
  reads besides: the objects of the two classes, \<^verbatim>\<open>MaxNumberSimYears\<close>, the shallow ground
  temperatures of \<^verbatim>\<open>DataEnvironment\<close>, the outcome of \<^verbatim>\<open>VerifyName\<close> for a name and the
  names before it (\<^verbatim>\<open>isNotOK\<close>, \<^verbatim>\<open>isBlank\<close>), the node number that \<^verbatim>\<open>GetOnlySingleNode\<close>
  returns for a node name and whether it reports an error, \<^verbatim>\<open>SameString\<close>, and the
  objects as their constructors leave them.
\<close>

record InputObject =
  cAlphaArgs :: "string list"
  rNumericArgs :: "real list"
  lNumericFieldBlanks :: "bool list"

record InputFile =
  verticalObjects :: "InputObject list"
  slinkyObjects :: "InputObject list"
  MaxNumberSimYears :: int
  PubGroundTempSurfFlag :: bool
  PubGroundTempSurface :: "real list"
  VerifyName :: "string \<Rightarrow> string list \<Rightarrow> bool \<times> bool"
  nodeNumber :: "string \<Rightarrow> int"
  nodeError :: "string \<Rightarrow> bool"
  SameString :: "string \<Rightarrow> string \<Rightarrow> bool"
  newVert :: GLHEVert
  newSlinky :: GLHESlinky

text \<open>
  The module with its arrays of heat exchangers: the variables above, the \<^verbatim>\<open>static\<close> locals
  \<^verbatim>\<open>GetInput\<close> of \<^verbatim>\<open>SimGroundHeatExchangers\<close> and \<^verbatim>\<open>errorsFound\<close> of
  \<^verbatim>\<open>GetGroundHeatExchangerInput\<close>, and \<^verbatim>\<open>numVerticalGLHEs\<close>, \<^verbatim>\<open>numSlinkyGLHEs\<close>,
  \<^verbatim>\<open>checkEquipName\<close>, \<^verbatim>\<open>verticalGLHE\<close>, \<^verbatim>\<open>slinkyGLHE\<close>.
\<close>

record World = Module +
  GetInput :: bool
  errorsFound :: bool
  numVerticalGLHEs :: int
  numSlinkyGLHEs :: int
  checkEquipName :: "bool list"
  verticalGLHE :: "GLHEVert list"
  slinkyGLHE :: "GLHESlinky list"

text \<open>A counted loop whose body may end the program.\<close>

function forLoopE :: "int \<Rightarrow> int \<Rightarrow> (int \<Rightarrow> 's \<Rightarrow> fatal + 's) \<Rightarrow> 's \<Rightarrow> fatal + 's" where
  "forLoopE I limit body s =
     (if I \<le> limit
      then (case body I s of Inl e \<Rightarrow> Inl e | Inr s' \<Rightarrow> forLoopE (I + 1) limit body s')
      else Inr s)"
  by pat_completeness auto

termination
  by (relation "measure (\<lambda>(I, limit, body, s). nat (limit + 1 - I))") auto

declare forLoopE.simps [simp del]

text \<open>
  The body of the loop over the objects \<^verbatim>\<open>GroundHeatExchanger:Vertical\<close>, in three parts:
  the fields of the object are read into the heat exchanger (\<open>readVerticalObject\<close>);
  the pipe is checked; the arrays are dimensioned (\<open>dimensionVertical\<close>) and the table is
  read (\<open>readTable\<close>). The state is the module and the local \<^verbatim>\<open>allocated\<close>.
\<close>

definition readVerticalObject ::
  "InputFile \<Rightarrow> int \<Rightarrow> 'w World_scheme \<Rightarrow> 'w World_scheme \<times> GLHEVert" where
  "readVerticalObject inp GLHENum w =
    (let ob = at1 (verticalObjects inp) GLHENum;
         alph = cAlphaArgs ob;
         num = rNumericArgs ob;
         (isNotOK, isBlank) = VerifyName inp (at1 alph 1)
             (map name (take (nat (GLHENum - 1)) (verticalGLHE w)));
         w = (if isNotOK then w \<lparr> errorsFound := True \<rparr> else w);
         alph = (if isNotOK \<and> isBlank then put1 alph 1 ''xxxxx'' else alph);
         d = at1 (verticalGLHE w) GLHENum;
         d = d \<lparr> name := at1 alph 1 \<rparr>;
         d = d \<lparr> inletNodeNum := nodeNumber inp (at1 alph 2) \<rparr>;
         w = (if nodeError inp (at1 alph 2) then w \<lparr> errorsFound := True \<rparr> else w);
         d = d \<lparr> outletNodeNum := nodeNumber inp (at1 alph 3) \<rparr>;
         w = (if nodeError inp (at1 alph 3) then w \<lparr> errorsFound := True \<rparr> else w);
         d = d \<lparr> designFlow := at1 num 1, numBoreholes := toInt (at1 num 2),
                 boreholeLength := at1 num 3, boreholeRadius := at1 num 4, kGround := at1 num 5,
                 cpRhoGround := at1 num 6, tempGround := at1 num 7, kGrout := at1 num 8,
                 kPipe := at1 num 9, pipeOutDia := at1 num 10, UtubeDist := at1 num 11,
                 pipeThick := at1 num 12, maxSimYears := at1 num 13,
                 gReferenceRatio := at1 num 14 \<rparr>;
         d = d \<lparr> totalTubeLength := of_int (numBoreholes d) * boreholeLength d \<rparr>;
         d = d \<lparr> diffusivityGround := kGround d / cpRhoGround d \<rparr>
     in (w, d))"

definition dimensionVertical :: "InputFile \<Rightarrow> real list \<Rightarrow> GLHEVert \<Rightarrow> GLHEVert" where
  "dimensionVertical inp num d =
    (let d = (if maxSimYears d < of_int (MaxNumberSimYears inp)
              then d \<lparr> maxSimYears := of_int (MaxNumberSimYears inp) \<rparr> else d);
         d = d \<lparr> NPairs := toInt (at1 num 15), SubAGG := 15, AGG := 192 \<rparr>;
         d = d \<lparr> LNTTS := replicate (nat (NPairs d)) 0.0, GFNC := replicate (nat (NPairs d)) 0.0,
                 QnMonthlyAgg := replicate (nat (toInt (maxSimYears d * 12))) 0.0,
                 QnHr := replicate (nat (730 + AGG d + SubAGG d)) 0.0,
                 QnSubHr := replicate (nat ((SubAGG d + 1) * maxTSinHr + 1)) 0.0,
                 LastHourN := replicate (nat (SubAGG d + 1)) 0 \<rparr>
     in d)"

definition readTable :: "real list \<Rightarrow> GLHEVert \<Rightarrow> GLHEVert" where
  \<comment> \<open>The pairs of the table are the fields from 16 on (\<^verbatim>\<open>indexNum\<close> is 16 + 2 (pairNum - 1)).\<close>
  "readTable num d =
     forLoop 1 (NPairs d)
       (\<lambda>pairNum d. d \<lparr> LNTTS := put1 (LNTTS d) pairNum (at1 num (16 + 2 * (pairNum - 1))),
                         GFNC := put1 (GFNC d) pairNum (at1 num (16 + 2 * (pairNum - 1) + 1)) \<rparr>) d"

definition getVerticalObject ::
  "InputFile \<Rightarrow> int \<Rightarrow> 'w World_scheme \<times> bool \<Rightarrow> fatal + 'w World_scheme \<times> bool" where
  "getVerticalObject inp GLHENum = (\<lambda>(w, allocated).
    (let (w, d) = readVerticalObject inp GLHENum w;
         w = (if pipeThick d \<ge> pipeOutDia d / 2.0 then w \<lparr> errorsFound := True \<rparr> else w);
         d = dimensionVertical inp (rNumericArgs (at1 (verticalObjects inp) GLHENum)) d;
         w = (if \<not> allocated
              then w \<lparr> prevTimeSteps := replicate (nat ((SubAGG d + 1) * maxTSinHr + 1)) 0.0 \<rparr>
              else w);
         allocated = True;
         d = readTable (rNumericArgs (at1 (verticalObjects inp) GLHENum)) d;
         w = w \<lparr> verticalGLHE := put1 (verticalGLHE w) GLHENum d \<rparr>
     in if errorsFound w
        then Inl (ShowFatalError ''Errors found in processing input for GroundHeatExchanger:Vertical'')
        else Inr (w, allocated)))"

text \<open>The ground temperature data of a slinky object that gives none of its own.\<close>

definition kusudaFromSurface :: "InputFile \<Rightarrow> 'a GLHESlinky_scheme \<Rightarrow> 'a GLHESlinky_scheme" where
  "kusudaFromSurface inp d =
    (let monthsInYear = 12;
         AvgDaysInMonth = 365.0 / 12.0;
         LargeNumber = 10000.0;
         d = d \<lparr> averageGroundTemp :=
                 fst (forSum 1 monthsInYear (\<lambda>monthIndex. at1 (PubGroundTempSurface inp) monthIndex) 0.0)
                   / of_int monthsInYear \<rparr>;
         d = d \<lparr> averageGroundTempAmplitude :=
                 fst (forSum 1 monthsInYear
                       (\<lambda>monthIndex. \<bar>at1 (PubGroundTempSurface inp) monthIndex - averageGroundTemp d\<bar>) 0.0)
                   / of_int monthsInYear \<rparr>;
         (monthOfMinSurfTemp, minSurfTemp) =
            forLoop 1 monthsInYear
              (\<lambda>monthIndex (monthOfMin, minTemp).
                  if at1 (PubGroundTempSurface inp) monthIndex \<le> minTemp
                  then (monthIndex, at1 (PubGroundTempSurface inp) monthIndex)
                  else (monthOfMin, minTemp))
              (0, LargeNumber)
     in d \<lparr> phaseShiftOfMinGroundTempDays := of_int monthOfMinSurfTemp * AvgDaysInMonth \<rparr>)"

text \<open>
  The body of the loop over the objects \<^verbatim>\<open>GroundHeatExchanger:Slinky\<close>: the fields of the
  object are read (\<open>readSlinkyObject\<close>: the numeric fields in \<open>slinkyFields\<close>, the depth of the
  coils in \<open>slinkyCoilDepth\<close>, the ground temperatures in \<open>slinkyGroundTemps\<close>),
  \<^verbatim>\<open>prevTimeSteps\<close> is allocated, the pipe is checked.
\<close>

definition slinkyFields :: "InputFile \<Rightarrow> InputObject \<Rightarrow> string list \<Rightarrow> GLHESlinky \<Rightarrow> GLHESlinky" where
  "slinkyFields inp ob alph d =
    (let num = rNumericArgs ob;
         d = d \<lparr> designFlow := at1 num 1, kGround := at1 num 2,
                 cpRhoGround := at1 num 3 * at1 num 4, kPipe := at1 num 5,
                 pipeOutDia := at1 num 8, pipeThick := at1 num 9 \<rparr>;
         d = (if SameString inp (at1 alph 4) ''VERTICAL'' then d \<lparr> verticalConfig := True \<rparr>
              else if SameString inp (at1 alph 4) ''HORIZONTAL'' then d \<lparr> verticalConfig := False \<rparr>
              else d);
         d = d \<lparr> coilDiameter := at1 num 10, coilPitch := at1 num 11, trenchDepth := at1 num 12,
                 trenchLength := at1 num 13, numTrenches := toInt (at1 num 14),
                 trenchSpacing := at1 num 15, maxSimYears := at1 num 19 \<rparr>;
         d = d \<lparr> numCoils := toInt (trenchLength d / coilPitch d) \<rparr>;
         d = d \<lparr> totalTubeLength := pi * coilDiameter d * trenchLength d
                                      * of_int (numTrenches d) / coilPitch d \<rparr>
     in d \<lparr> useGroundTempDataForKusuda :=
                 (at1 (lNumericFieldBlanks ob) 16 \<or> at1 (lNumericFieldBlanks ob) 17
                    \<or> at1 (lNumericFieldBlanks ob) 18) \<rparr>)"

definition slinkyCoilDepth :: "'w World_scheme \<times> GLHESlinky \<Rightarrow> 'w World_scheme \<times> GLHESlinky" where
  "slinkyCoilDepth = (\<lambda>(w, d).
     if verticalConfig d = True then
       (if trenchDepth d - coilDiameter d < 0.0 then (w \<lparr> errorsFound := True \<rparr>, d)
        else (w, d \<lparr> coilDepth := trenchDepth d - (coilDiameter d / 2.0) \<rparr>))
     else (w, d \<lparr> coilDepth := trenchDepth d \<rparr>))"

definition slinkyGroundTemps ::
  "InputFile \<Rightarrow> real list \<Rightarrow> 'w World_scheme \<times> GLHESlinky \<Rightarrow> 'w World_scheme \<times> GLHESlinky" where
  "slinkyGroundTemps inp num = (\<lambda>(w, d).
     if \<not> useGroundTempDataForKusuda d
     then (w, d \<lparr> averageGroundTemp := at1 num 16, averageGroundTempAmplitude := at1 num 17,
                  phaseShiftOfMinGroundTempDays := at1 num 18 \<rparr>)
     else ((if \<not> PubGroundTempSurfFlag inp then w \<lparr> errorsFound := True \<rparr> else w),
           kusudaFromSurface inp d))"

definition readSlinkyObject ::
  "InputFile \<Rightarrow> int \<Rightarrow> 'w World_scheme \<Rightarrow> 'w World_scheme \<times> GLHESlinky" where
  "readSlinkyObject inp GLHENum w =
    (let ob = at1 (slinkyObjects inp) GLHENum;
         alph = cAlphaArgs ob;
         (isNotOK, isBlank) = VerifyName inp (at1 alph 1)
             (map name (take (nat (GLHENum - 1)) (slinkyGLHE w)));
         w = (if isNotOK then w \<lparr> errorsFound := True \<rparr> else w);
         alph = (if isNotOK \<and> isBlank then put1 alph 1 ''xxxxx'' else alph);
         d = at1 (slinkyGLHE w) GLHENum;
         d = d \<lparr> name := at1 alph 1 \<rparr>;
         d = d \<lparr> inletNodeNum := nodeNumber inp (at1 alph 2) \<rparr>;
         w = (if nodeError inp (at1 alph 2) then w \<lparr> errorsFound := True \<rparr> else w);
         d = d \<lparr> outletNodeNum := nodeNumber inp (at1 alph 3) \<rparr>;
         w = (if nodeError inp (at1 alph 3) then w \<lparr> errorsFound := True \<rparr> else w);
         d = slinkyFields inp ob alph d;
         (w, d) = slinkyCoilDepth (w, d);
         d = d \<lparr> diffusivityGround := kGround d / cpRhoGround d \<rparr>
     in slinkyGroundTemps inp (rNumericArgs ob) (w, d))"

definition getSlinkyObject ::
  "InputFile \<Rightarrow> int \<Rightarrow> 'w World_scheme \<times> bool \<Rightarrow> fatal + 'w World_scheme \<times> bool" where
  "getSlinkyObject inp GLHENum = (\<lambda>(w, allocated).
    (let (w, d) = readSlinkyObject inp GLHENum w;
         w = (if \<not> allocated
              then w \<lparr> prevTimeSteps := replicate (nat ((SubAGG d + 1) * maxTSinHr + 1)) 0.0 \<rparr>
              else w);
         allocated = True;
         w = (if pipeThick d \<ge> pipeOutDia d / 2.0 then w \<lparr> errorsFound := True \<rparr> else w);
         w = w \<lparr> slinkyGLHE := put1 (slinkyGLHE w) GLHENum d \<rparr>
     in if errorsFound w
        then Inl (ShowFatalError ''Errors found in processing input for GroundHeatExchanger:Slinky'')
        else Inr (w, allocated)))"

definition GetGroundHeatExchangerInput :: "InputFile \<Rightarrow> 'w World_scheme \<Rightarrow> fatal + 'w World_scheme" where
  "GetGroundHeatExchangerInput inp w =
    (let w = w \<lparr> numVerticalGLHEs := int (length (verticalObjects inp)),
                 numSlinkyGLHEs := int (length (slinkyObjects inp)) \<rparr>;
         w = (if numVerticalGLHEs w \<le> 0 \<and> numSlinkyGLHEs w \<le> 0
              then w \<lparr> errorsFound := True \<rparr> else w)
     in case (if numVerticalGLHEs w > 0
              then forLoopE 1 (numVerticalGLHEs w) (getVerticalObject inp)
                     (w \<lparr> verticalGLHE := replicate (nat (numVerticalGLHEs w)) (newVert inp),
                          checkEquipName := replicate (nat (numVerticalGLHEs w)) True \<rparr>, False)
              else Inr (w, False)) of
          Inl e \<Rightarrow> Inl e
        | Inr (w, allocated) \<Rightarrow>
           (if numSlinkyGLHEs w > 0
            then (case forLoopE 1 (numSlinkyGLHEs w) (getSlinkyObject inp)
                         (w \<lparr> slinkyGLHE := replicate (nat (numSlinkyGLHEs w)) (newSlinky inp),
                              checkEquipName := replicate (nat (numSlinkyGLHEs w)) True \<rparr>, False) of
                    Inl e \<Rightarrow> Inl e
                  | Inr (w, allocated) \<Rightarrow> Inr w)
            else Inr w))"

subsection \<open>Simulating one heat exchanger\<close>

definition SecsInDay :: real where "SecsInDay = 86400.0"

definition getKAGrndTemp ::
  "Extern \<Rightarrow> 'a GLHEBase_scheme \<Rightarrow> real \<Rightarrow> real \<Rightarrow> real \<Rightarrow> real \<Rightarrow> real \<Rightarrow> real" where
  \<comment> \<open>The correlation of Kusuda and Achenbach. The function reads \<^verbatim>\<open>DayOfSim\<close>, not its
      argument \<^verbatim>\<open>dayOfYear\<close>.\<close>
  "getKAGrndTemp ex d z dayOfYear aveGroundTemp aveGroundTempAmplitude phaseShiftInDays =
    (let SecsInYear = SecsInDay * 365.0;
         Term1 = - z * sqrt (pi / (SecsInYear * diffusivityGround d));
         Term2 = (2 * pi / SecsInYear)
                   * ((of_int (DayOfSim ex) - phaseShiftInDays) * SecsInDay
                      - (z / 2) * sqrt (SecsInYear / (pi * diffusivityGround d)))
     in aveGroundTemp - aveGroundTempAmplitude * exp Term1 * cos Term2)"

text \<open>
  \<^verbatim>\<open>initGLHESimVars\<close>, the same text in both classes but for the temperature that the two
  nodes get at the start of an environment, which is the argument \<open>startTemp\<close> here.
\<close>

definition initGLHESimVars ::
  "('a GLHEBase_scheme \<Rightarrow> real) \<Rightarrow> Extern \<Rightarrow> 'm Module_scheme \<times> 'a GLHEBase_scheme
     \<Rightarrow> fatal + 'm Module_scheme \<times> 'a GLHEBase_scheme" where
  "initGLHESimVars startTemp ex = (\<lambda>(g, d).
    if myFlag d \<and> scanErrFlag ex (name d)
    then Inl (ShowFatalError ''initGLHESimVars: Program terminated due to previous condition(s).'')
    else
     (let d = (if myFlag d then d \<lparr> myFlag := False \<rparr> else d);
          (g, d) =
            (if myEnvrnFlag d \<and> BeginEnvrnFlag ex then
               (let d = d \<lparr> myEnvrnFlag := False \<rparr>;
                    fluidDensity = rhoGlycol ex 20.0;
                    d = d \<lparr> designMassFlow := designFlow d * fluidDensity \<rparr>;
                    d = d \<lparr> lastQnSubHr := 0.0 \<rparr>;
                    g = g \<lparr> NodeTemp := (NodeTemp g) (inletNodeNum d := startTemp d) \<rparr>;
                    g = g \<lparr> NodeTemp := (NodeTemp g) (outletNodeNum d := startTemp d) \<rparr>;
                    d = d \<lparr> QnHr := fill (QnHr d) 0.0, QnMonthlyAgg := fill (QnMonthlyAgg d) 0.0,
                            QnSubHr := fill (QnSubHr d) 0.0, LastHourN := fill (LastHourN d) 0 \<rparr>;
                    g = g \<lparr> prevTimeSteps := fill (prevTimeSteps g) 0.0, currentSimTime := 0.0 \<rparr>
                in (g, d))
             else (g, d));
          d = d \<lparr> massFlowRate := plantFlow ex (name d) (designMassFlow d) \<rparr>;
          d = (if \<not> BeginEnvrnFlag ex then d \<lparr> myEnvrnFlag := True \<rparr> else d)
      in Inr (g, d)))"

definition GLHEVert_initGLHESimVars ::
  "Extern \<Rightarrow> 'm Module_scheme \<times> 'a GLHEVert_scheme \<Rightarrow> fatal + 'm Module_scheme \<times> 'a GLHEVert_scheme" where
  "GLHEVert_initGLHESimVars = initGLHESimVars tempGround"

definition GLHESlinky_initGLHESimVars ::
  "Extern \<Rightarrow> 'm Module_scheme \<times> 'a GLHESlinky_scheme \<Rightarrow> fatal + 'm Module_scheme \<times> 'a GLHESlinky_scheme" where
  "GLHESlinky_initGLHESimVars ex =
     initGLHESimVars
       (\<lambda>d. getKAGrndTemp ex d (coilDepth d) (of_int (DayOfSim ex)) (averageGroundTemp d)
               (averageGroundTempAmplitude d) (phaseShiftOfMinGroundTempDays d)) ex"

definition updateGHX ::
  "Extern \<Rightarrow> 'w World_scheme \<times> 'a GLHEBase_scheme \<Rightarrow> 'w World_scheme \<times> 'a GLHEBase_scheme" where
  "updateGHX ex = (\<lambda>(w, d).
    (let deltaTempLimit = 100.0;
         w = w \<lparr> NodeTemp := (NodeTemp w) (outletNodeNum d := outletTemp d) \<rparr>;
         GLHEdeltaTemp = \<bar>outletTemp d - inletTemp d\<bar>
     in if GLHEdeltaTemp > deltaTempLimit \<and> numErrorCalls w < numVerticalGLHEs w \<and> \<not> WarmupFlag ex
        then (w \<lparr> numErrorCalls := numErrorCalls w + 1 \<rparr>,
              d \<lparr> designMassFlow := designFlow d * rhoGlycol ex (inletTemp d) \<rparr>)
        else (w, d)))"

definition FindItemInList :: "string \<Rightarrow> string list \<Rightarrow> int \<Rightarrow> int" where
  \<comment> \<open>\<^verbatim>\<open>InputProcessor::FindItemInList\<close>: the index of the first of the \<^verbatim>\<open>n\<close> items that
      is the string, and 0 when there is none.\<close>
  "FindItemInList s items n =
     (case find (\<lambda>i. at1 items i = s) [1..n] of None \<Rightarrow> 0 | Some i \<Rightarrow> i)"

text \<open>
  The look-up of the heat exchanger in \<^verbatim>\<open>SimGroundHeatExchangers\<close>, the same text for both
  classes: the result is \<^verbatim>\<open>GLHENum\<close> (which is also the new \<^verbatim>\<open>compIndex\<close>) and the module.
\<close>

definition findGLHE ::
  "string \<Rightarrow> int \<Rightarrow> string list \<Rightarrow> int \<Rightarrow> 'w World_scheme \<Rightarrow> fatal + int \<times> 'w World_scheme" where
  "findGLHE nm compIndex names numGLHEs w =
    (if compIndex = 0 then
       (let GLHENum = FindItemInList nm names numGLHEs
        in if GLHENum = 0 then Inl (ShowFatalError (''SimGroundHeatExchangers: Unit not found='' @ nm))
           else Inr (GLHENum, w))
     else
       (let GLHENum = compIndex
        in if GLHENum > numGLHEs \<or> GLHENum < 1
           then Inl (ShowFatalError ''SimGroundHeatExchangers:  Invalid compIndex passed='')
           else if at1 (checkEquipName w) GLHENum
           then (if nm \<noteq> at1 names GLHENum
                 then Inl (ShowFatalError ''SimGroundHeatExchangers: Invalid compIndex passed='')
                 else Inr (GLHENum, w \<lparr> checkEquipName := put1 (checkEquipName w) GLHENum False \<rparr>))
           else Inr (GLHENum, w)))"

text \<open>
  \<^verbatim>\<open>SimGroundHeatExchangers\<close>. The arguments \<^verbatim>\<open>runFlag\<close> and \<^verbatim>\<open>firstIteration\<close> are not read.
  The result is the module and \<^verbatim>\<open>compIndex\<close>.
\<close>

definition SimGroundHeatExchangers ::
  "InputFile \<Rightarrow> Extern \<Rightarrow> string \<Rightarrow> string \<Rightarrow> int \<Rightarrow> bool \<Rightarrow> 'w World_scheme
     \<Rightarrow> fatal + 'w World_scheme \<times> int" where
  "SimGroundHeatExchangers inp ex type nm compIndex initLoopEquip w =
    (case (if GetInput w
           then (case GetGroundHeatExchangerInput inp w of
                   Inl e \<Rightarrow> Inl e | Inr w \<Rightarrow> Inr (w \<lparr> GetInput := False \<rparr>))
           else Inr w) of
       Inl e \<Rightarrow> Inl e
     | Inr w \<Rightarrow>
        (if type = ''GROUNDHEATEXCHANGER:VERTICAL'' then
           (case findGLHE nm compIndex (map name (verticalGLHE w)) (numVerticalGLHEs w) w of
              Inl e \<Rightarrow> Inl e
            | Inr (GLHENum, w) \<Rightarrow>
               (case GLHEVert_initGLHESimVars ex (w, at1 (verticalGLHE w) GLHENum) of
                  Inl e \<Rightarrow> Inl e
                | Inr (w, thisGLHE) \<Rightarrow>
                   if initLoopEquip
                   then Inr (w \<lparr> verticalGLHE := put1 (verticalGLHE w) GLHENum thisGLHE \<rparr>, GLHENum)
                   else
                    (case updateGHX ex (GLHEVert_calcGroundHeatExchanger ex (w, thisGLHE)) of
                       (w, thisGLHE) \<Rightarrow>
                         Inr (w \<lparr> verticalGLHE := put1 (verticalGLHE w) GLHENum thisGLHE \<rparr>, GLHENum))))
         else if type = ''GROUNDHEATEXCHANGER:SLINKY'' then
           (case findGLHE nm compIndex (map name (slinkyGLHE w)) (numSlinkyGLHEs w) w of
              Inl e \<Rightarrow> Inl e
            | Inr (GLHENum, w) \<Rightarrow>
               (case GLHESlinky_initGLHESimVars ex (w, at1 (slinkyGLHE w) GLHENum) of
                  Inl e \<Rightarrow> Inl e
                | Inr (w, thisGLHE) \<Rightarrow>
                   if initLoopEquip
                   then Inr (w \<lparr> slinkyGLHE := put1 (slinkyGLHE w) GLHENum thisGLHE \<rparr>, GLHENum)
                   else
                    (case updateGHX ex (GLHESlinky_calcGroundHeatExchanger ex (w, thisGLHE)) of
                       (w, thisGLHE) \<Rightarrow>
                         Inr (w \<lparr> slinkyGLHE := put1 (slinkyGLHE w) GLHENum thisGLHE \<rparr>, GLHENum))))
         else Inr (w, compIndex)))"

section \<open>Properties stated about the module\<close>

subsection \<open>Straight lines through table entries\<close>

text \<open>
  A point lies on the straight line through two others when the three are collinear.
  A table is well formed when it has at least two pairs, both arrays have \<^verbatim>\<open>NPairs\<close>
  elements and the log-time axis is strictly increasing.
\<close>

definition onLine :: "real \<times> real \<Rightarrow> real \<times> real \<Rightarrow> real \<times> real \<Rightarrow> bool" where
  "onLine P Q R = ((snd R - snd P) * (fst Q - fst P) = (snd Q - snd P) * (fst R - fst P))"

definition entry :: "'a GLHEBase_scheme \<Rightarrow> int \<Rightarrow> real \<times> real" where
  "entry d k = (at1 (LNTTS d) k, at1 (GFNC d) k)"

definition tabulated :: "'a GLHEBase_scheme \<Rightarrow> bool" where
  "tabulated d = (2 \<le> NPairs d \<and> length (LNTTS d) = nat (NPairs d)
      \<and> length (GFNC d) = nat (NPairs d) \<and> sorted_wrt (<) (LNTTS d))"


subsection \<open>Objects used as examples\<close>

definition blankGLHE :: GLHEBase where
  "blankGLHE = \<lparr> name = [], inletNodeNum = 0, outletNodeNum = 0, designFlow = 0,
     designMassFlow = 0, tempGround = 0, kGround = 0, cpRhoGround = 0, diffusivityGround = 0,
     kPipe = 0, pipeOutDia = 0, pipeThick = 0, maxSimYears = 0, totalTubeLength = 0,
     timeSS = 0, timeSSFactor = 0, AGG = 0, SubAGG = 0, NPairs = 0, LNTTS = [], GFNC = [],
     QnMonthlyAgg = [], QnHr = [], QnSubHr = [], LastHourN = [], prevHour = 0,
     lastQnSubHr = 0, HXResistance = 0, massFlowRate = 0, inletTemp = 0, outletTemp = 0,
     QGLHE = 0, aveFluidTemp = 0, boreholeTemp = 0, myFlag = True, myEnvrnFlag = True,
     gFuncCalls = 0 \<rparr>"

definition tableGLHE :: GLHEBase where
  "tableGLHE = blankGLHE \<lparr> NPairs := 3, LNTTS := [-1, 0, 2], GFNC := [1, 3, 4] \<rparr>"


text \<open>
  What \<^verbatim>\<open>GLHESlinky::calcGFunctions\<close> does not write: everything but the table, the
  coordinates of the rings and the (newly allocated) history arrays.
\<close>

definition unwritten :: "'a GLHESlinky_scheme \<Rightarrow> 'a GLHESlinky_scheme" where
  "unwritten d = d \<lparr> NPairs := 0, LNTTS := [], GFNC := [],
              QnMonthlyAgg := [], QnHr := [], QnSubHr := [],
              LastHourN := [], gFuncCalls := 0, X0 := [], Y0 := [], Z0 := 0 \<rparr>"

definition blankVert :: GLHEVert where
  "blankVert = \<lparr> name = [], inletNodeNum = 0, outletNodeNum = 0, designFlow = 0,
     designMassFlow = 0, tempGround = 0, kGround = 0, cpRhoGround = 0, diffusivityGround = 0,
     kPipe = 0, pipeOutDia = 0, pipeThick = 0, maxSimYears = 0, totalTubeLength = 0,
     timeSS = 0, timeSSFactor = 0, AGG = 0, SubAGG = 0, NPairs = 0, LNTTS = [], GFNC = [],
     QnMonthlyAgg = [], QnHr = [], QnSubHr = [], LastHourN = [], prevHour = 0,
     lastQnSubHr = 0, HXResistance = 0, massFlowRate = 0, inletTemp = 0, outletTemp = 0,
     QGLHE = 0, aveFluidTemp = 0, boreholeTemp = 0, myFlag = True, myEnvrnFlag = True,
     gFuncCalls = 0,
     numBoreholes = 0, boreholeLength = 0, boreholeRadius = 0, kGrout = 0, UtubeDist = 0,
     gReferenceRatio = 0 \<rparr>"

definition blankSlinky :: GLHESlinky where
  "blankSlinky = \<lparr> name = [], inletNodeNum = 0, outletNodeNum = 0, designFlow = 0,
     designMassFlow = 0, tempGround = 0, kGround = 0, cpRhoGround = 0, diffusivityGround = 0,
     kPipe = 0, pipeOutDia = 0, pipeThick = 0, maxSimYears = 0, totalTubeLength = 0,
     timeSS = 0, timeSSFactor = 0, AGG = 0, SubAGG = 0, NPairs = 0, LNTTS = [], GFNC = [],
     QnMonthlyAgg = [], QnHr = [], QnSubHr = [], LastHourN = [], prevHour = 0,
     lastQnSubHr = 0, HXResistance = 0, massFlowRate = 0, inletTemp = 0, outletTemp = 0,
     QGLHE = 0, aveFluidTemp = 0, boreholeTemp = 0, myFlag = True, myEnvrnFlag = True,
     gFuncCalls = 0,
     verticalConfig = False, coilDiameter = 0, coilPitch = 0, coilDepth = 0, trenchDepth = 0,
     trenchLength = 0, trenchSpacing = 0, numTrenches = 0, numCoils = 0, X0 = [], Y0 = [],
     Z0 = 0, useGroundTempDataForKusuda = False, averageGroundTemp = 0,
     averageGroundTempAmplitude = 0, phaseShiftOfMinGroundTempDays = 0 \<rparr>"

text \<open>
  A borehole field as the input of a vertical heat exchanger describes it (one borehole
  of 76.2 m, three pairs of the table), with the arrays of the sizes that
  \<^verbatim>\<open>GetGroundHeatExchangerInput\<close> gives them, and a slinky field of one trench.
\<close>

definition exampleVert :: GLHEVert where
  "exampleVert = blankVert \<lparr> name := ''VERTICAL GHE 1'', inletNodeNum := 1, outletNodeNum := 2,
     designFlow := 0.0033, tempGround := 15, kGround := 0.7, cpRhoGround := 2347000,
     diffusivityGround := 0.7 / 2347000, kPipe := 0.39, pipeOutDia := 0.0267,
     pipeThick := 0.0024, maxSimYears := 1, totalTubeLength := 76.2, AGG := 192, SubAGG := 15,
     NPairs := 3, LNTTS := [- 15, - 5, 3], GFNC := [0, 2, 8],
     QnMonthlyAgg := replicate 12 0, QnHr := replicate 937 0, QnSubHr := replicate 961 0,
     LastHourN := replicate 16 0, numBoreholes := 1, boreholeLength := 76.2,
     boreholeRadius := 0.0635, kGrout := 0.7, UtubeDist := 0.0254, gReferenceRatio := 0.0005 \<rparr>"

definition exampleSlinky :: GLHESlinky where
  "exampleSlinky = blankSlinky \<lparr> name := ''SLINKY GHE 1'', inletNodeNum := 3, outletNodeNum := 4,
     designFlow := 0.0033, tempGround := 15, kGround := 1.2, cpRhoGround := 3200000,
     diffusivityGround := 1.2 / 3200000, kPipe := 1.8, pipeOutDia := 0.02667,
     pipeThick := 0.002413, maxSimYears := 1, totalTubeLength := pi * 40, AGG := 192,
     SubAGG := 15, coilDiameter := 1, coilPitch := 0.2, coilDepth := 1.8, trenchDepth := 1.8,
     trenchLength := 8, trenchSpacing := 3.2, numTrenches := 1, numCoils := 40 \<rparr>"

definition startModule :: Module where
  "startModule = \<lparr> N = 1, currentSimTime = 0, locHourOfDay = 0, locDayOfSim = 0,
     prevTimeSteps = replicate 961 0, ToutNew = 19.375, PrevN = 1, updateCurSimTime = True,
     triggerDesignDayReset = False, firstTime = True, numErrorCalls = 0,
     NodeTemp = (\<lambda>i. 20) \<rparr>"

definition firstInstant :: Extern where
  \<comment> \<open>The first time step of the first hour of the first day: the time is 0.\<close>
  "firstInstant = \<lparr> DayOfSim = 1, HourOfDay = 1, TimeStep = 1, TimeStepZone = 0.25,
     SysTimeElapsed = 0, WarmupFlag = True, BeginEnvrnFlag = True,
     cpGlycol = (\<lambda>T. 4180), rhoGlycol = (\<lambda>T. 998), muGlycol = (\<lambda>T. 0.001),
     kGlycol = (\<lambda>T. 0.6), scanErrFlag = (\<lambda>n. False), plantFlow = (\<lambda>n m. m) \<rparr>"

definition secondStep :: Extern where
  \<comment> \<open>The second time step of the first hour: the time is a quarter of an hour.\<close>
  "secondStep = firstInstant \<lparr> TimeStep := 2, BeginEnvrnFlag := False \<rparr>"



definition hourModule :: Module where
  \<comment> \<open>The first call of the second hour, after time steps at 0.5 h and 0.75 h.\<close>
  "hourModule = startModule \<lparr> N := 4, currentSimTime := 1, locHourOfDay := 2, locDayOfSim := 1,
     prevTimeSteps := [1, 0.75, 0.5] @ replicate 958 0 \<rparr>"

definition hourVert :: GLHEVert where
  "hourVert = exampleVert \<lparr> QnSubHr := [10, 20, 30] @ replicate 958 0,
     LastHourN := replicate 16 1, prevHour := 1 \<rparr>"

definition deviceHistory :: "'a GLHEBase_scheme \<Rightarrow> real list \<times> real list \<times> real list \<times> int list \<times> int" where
  "deviceHistory d = (QnSubHr d, QnHr d, QnMonthlyAgg d, LastHourN d, prevHour d)"

definition history ::
  "'m Module_scheme \<Rightarrow> 'a GLHEBase_scheme
     \<Rightarrow> real list \<times> int \<times> real list \<times> real list \<times> real list \<times> int list \<times> int" where
  "history g d = (prevTimeSteps g, N g, deviceHistory d)"

text \<open>
  What a call at a positive time leaves behind, and what makes the next call at the same
  time leave the history alone: the time stamp of the call is the first one of
  \<^verbatim>\<open>prevTimeSteps\<close>, \<^verbatim>\<open>PrevN\<close> has caught up with \<^verbatim>\<open>N\<close>, the hour of the heat exchanger is the
  hour of the clock, and on the first day no reset is pending.
\<close>

definition settled :: "Extern \<Rightarrow> 'm Module_scheme \<Rightarrow> 'a GLHEBase_scheme \<Rightarrow> bool" where
  "settled ex g d =
    (\<not> firstTime g \<and> at1 (prevTimeSteps g) 1 = simTime ex \<and> PrevN g = N g
     \<and> prevHour d = toInt (fmod (simTime ex) hrsPerDay + 1)
     \<and> (if DayOfSim ex = 1
         then \<not> updateCurSimTime g \<and> \<not> (triggerDesignDayReset g \<and> WarmupFlag ex)
         else True))"

definition erfTerm :: "real \<Rightarrow> nat \<Rightarrow> real" where
  "erfTerm x k = x ^ (2 * k + 1) / (fact k * of_nat (2 * k + 1))"

definition threeCoils :: GLHESlinky where
  \<comment> \<open>One trench of three coils, 6 m apart, simulated for two years.\<close>
  "threeCoils = exampleSlinky \<lparr> kGround := 2, cpRhoGround := 2000000,
     diffusivityGround := 2 / 2000000, maxSimYears := 2, coilDiameter := 1, coilPitch := 6,
     coilDepth := 1.25, trenchDepth := 1.25, trenchLength := 18, numTrenches := 1,
     numCoils := 3 \<rparr>"

subsection \<open>The g-functions of several heat exchangers\<close>

text \<open>
  The table of g-functions of a heat exchanger, with the number of completed calls of
  \<^verbatim>\<open>calcGFunctions\<close>.
\<close>

definition gTable :: "'a GLHEBase_scheme \<Rightarrow> nat \<times> int \<times> real list \<times> real list" where
  "gTable d = (gFuncCalls d, NPairs d, LNTTS d, GFNC d)"

definition secondSlinky :: GLHESlinky where
  \<comment> \<open>A second slinky heat exchanger of the same run.\<close>
  "secondSlinky = exampleSlinky \<lparr> name := ''SLINKY GHE 2'', inletNodeNum := 5, outletNodeNum := 6 \<rparr>"

subsection \<open>Pipes that are too thick\<close>

definition thickPipeVertical :: "InputObject \<Rightarrow> bool" where
  \<comment> \<open>Field 12 (pipe thickness) is at least half of field 10 (pipe outer diameter).\<close>
  "thickPipeVertical ob = (at1 (rNumericArgs ob) 12 \<ge> at1 (rNumericArgs ob) 10 / 2)"

definition thickPipeSlinky :: "InputObject \<Rightarrow> bool" where
  \<comment> \<open>Field 9 (pipe thickness) is at least half of field 8 (pipe outer diameter).\<close>
  "thickPipeSlinky ob = (at1 (rNumericArgs ob) 9 \<ge> at1 (rNumericArgs ob) 8 / 2)"

definition thickPipeInput :: "InputFile \<Rightarrow> bool" where
  \<comment> \<open>Some object of the input has such a pipe.\<close>
  "thickPipeInput inp = (list_ex thickPipeVertical (verticalObjects inp)
                          \<or> list_ex thickPipeSlinky (slinkyObjects inp))"

definition thickObject :: InputObject where
  \<comment> \<open>A vertical heat exchanger whose pipe is 26.7 mm wide with a wall of 15 mm.\<close>
  "thickObject = \<lparr> cAlphaArgs = [''VERTICAL GHE 1'', ''GHE INLET NODE'', ''GHE OUTLET NODE''],
     rNumericArgs = [0.0033, 1, 76.2, 0.0635, 0.7, 2347000, 15, 0.7, 0.39, 0.0267, 0.0254,
                     0.015, 1, 0.0005, 2, - 15, 0, 3, 8],
     lNumericFieldBlanks = replicate 19 False \<rparr>"

definition thickInput :: InputFile where
  "thickInput = \<lparr> verticalObjects = [thickObject], slinkyObjects = [], MaxNumberSimYears = 1,
     PubGroundTempSurfFlag = False, PubGroundTempSurface = [],
     VerifyName = (\<lambda>nm names. (nm \<in> set names \<or> nm = [], nm = [])),
     nodeNumber = (\<lambda>nm. if nm = ''GHE INLET NODE'' then 1 else 2),
     nodeError = (\<lambda>nm. nm = []), SameString = (\<lambda>a b. a = b),
     newVert = blankVert, newSlinky = blankSlinky \<rparr>"

definition startWorld :: World where
  \<comment> \<open>The module before the first call of \<^verbatim>\<open>SimGroundHeatExchangers\<close>.\<close>
  "startWorld = \<lparr> N = 1, currentSimTime = 0, locHourOfDay = 0, locDayOfSim = 0,
     prevTimeSteps = [], ToutNew = 19.375, PrevN = 1, updateCurSimTime = True,
     triggerDesignDayReset = False, firstTime = True, numErrorCalls = 0,
     NodeTemp = (\<lambda>i. 20), GetInput = True, errorsFound = False, numVerticalGLHEs = 0,
     numSlinkyGLHEs = 0, checkEquipName = [], verticalGLHE = [], slinkyGLHE = [] \<rparr>"

subsection \<open>The first time step\<close>

text \<open>
  What every call of \<^verbatim>\<open>calcGroundHeatExchanger\<close> keeps: the counter \<^verbatim>\<open>N\<close> of time steps is at
  least 1, \<^verbatim>\<open>prevTimeSteps\<close> is allocated, and while \<^verbatim>\<open>N\<close> is 1 no time step is recorded.
  This holds after \<^verbatim>\<open>GetGroundHeatExchangerInput\<close>, which sets \<^verbatim>\<open>prevTimeSteps\<close> to zero; \<^verbatim>\<open>N\<close>
  is initialised to 1.
\<close>

definition stepCounted :: "'m Module_scheme \<Rightarrow> bool" where
  "stepCounted g = (1 \<le> N g \<and> prevTimeSteps g \<noteq> []
                    \<and> (if N g = 1 then at1 (prevTimeSteps g) 1 = 0 else True))"


subsection \<open>The superposition of the load history\<close>

text \<open>
  The response of the ground to a unit load after the time \<open>dt\<close>: the g-function of the table
  at \<open>ln (dt / timeSSFactor)\<close>, over \<open>2 \<pi> k\<close>.
\<close>

definition responseAt :: "'a GLHEBase_scheme \<Rightarrow> real \<Rightarrow> real" where
  "responseAt d dt = interpGFunc d (ln (dt / timeSSFactor d)) / (2 * pi * kGround d)"

text \<open>
  One resolution of the history: the entries \<open>lo\<close> to \<open>hi\<close> of a bucket, the most recent
  one first. Every entry counts with its difference to the next, older entry, and the oldest
  one with its difference to a reference value, times the response at the age of the entry.
\<close>

definition pulseSum :: "int \<Rightarrow> int \<Rightarrow> (int \<Rightarrow> real) \<Rightarrow> real \<Rightarrow> (int \<Rightarrow> real) \<Rightarrow> real" where
  "pulseSum lo hi pulse reference response =
     (\<Sum>i = lo..hi. (pulse i - (if i = hi then reference else pulse (i + 1))) * response i)"

text \<open>
  The temperature drop due to the whole history, as the sum over the resolutions: before the
  time \<open>hrsPerMonth + AGG + SubAGG\<close> the sub-hourly loads since the hour \<open>SubAGG\<close> hours ago
  (referred to the hourly load of that hour, or to zero when the run is younger) and the
  hourly loads before them (referred to zero); after it, the monthly loads (the oldest one
  first, each with its difference to the month before), the hourly loads (referred to the
  last monthly load) and the sub-hourly loads (referred to the hourly load \<open>SubAGG + 1\<close>). At
  the first time step there is no history.
\<close>

definition historyDrop :: "'m Module_scheme \<Rightarrow> 'a GLHEBase_scheme \<Rightarrow> real" where
  "historyDrop g d =
    (let t = currentSimTime g; hour = toInt t in
     if N g = 1 then 0
     else if t < hrsPerMonth + of_int (AGG d) + of_int (SubAGG d) then
       (let level = (if hour < SubAGG d then hour + 1 else SubAGG d + 1) in
          pulseSum 1 (N g - at1 (LastHourN d) level) (at1 (QnSubHr d))
            (if hour \<ge> SubAGG d then at1 (QnHr d) level else 0)
            (\<lambda>i. responseAt d (t - at1 (prevTimeSteps g) (i + 1)))
        + pulseSum (SubAGG d + 1) hour (at1 (QnHr d)) 0
            (\<lambda>i. responseAt d (t - of_int hour + of_int i)))
     else
       (let months = toInt ((t + 1) / hrsPerMonth);
            month = (if t < of_int months * hrsPerMonth + of_int (AGG d) + of_int (SubAGG d)
                     then months - 1 else months);
            hours = toInt (t - of_int month * hrsPerMonth) in
          (\<Sum>i = 1..month. (at1 (QnMonthlyAgg d) i - (if i = 1 then 0 else at1 (QnMonthlyAgg d) (i - 1)))
                             * responseAt d (t - of_int (i - 1) * hrsPerMonth))
        + pulseSum (1 + SubAGG d) hours (at1 (QnHr d)) (at1 (QnMonthlyAgg d) month)
            (\<lambda>i. responseAt d (t - of_int hour + of_int i))
        + pulseSum 1 (N g - at1 (LastHourN d) (SubAGG d + 1)) (at1 (QnSubHr d))
            (at1 (QnHr d) (SubAGG d + 1))
            (\<lambda>i. responseAt d (t - at1 (prevTimeSteps g) (i + 1)))))"

text \<open>
  The parameters of a heat exchanger that the superposition reads, and the inlet temperature.
\<close>

definition settings :: "'a GLHEBase_scheme \<Rightarrow> real \<times> real \<times> int \<times> int \<times> real \<times> real" where
  "settings d = (tempGround d, kGround d, SubAGG d, AGG d, timeSSFactor d, inletTemp d)"

definition minuteStep :: Extern where
  \<comment> \<open>The third time step of the first hour, with time steps of one minute: the time is
      1/30 h.\<close>
  "minuteStep = firstInstant \<lparr> TimeStep := 3, TimeStepZone := 1 / 60, BeginEnvrnFlag := False \<rparr>"

definition stoppedModule :: Module where
  \<comment> \<open>The module after a first call at 1/30 h, the second time step after the start.\<close>
  "stoppedModule = startModule \<lparr> N := 3, currentSimTime := 1 / 30, locHourOfDay := 1,
     locDayOfSim := 1, prevTimeSteps := [1 / 30, 1 / 60] @ replicate 959 0, PrevN := 3,
     updateCurSimTime := False, firstTime := False \<rparr>"

definition stoppedVert :: GLHEVert where
  \<comment> \<open>A borehole of 200 m that took up 5 W/m in the time step before, and has no flow.\<close>
  "stoppedVert = exampleVert \<lparr> kGround := 1, cpRhoGround := 2000000,
     diffusivityGround := 1 / 2000000, boreholeLength := 200, totalTubeLength := 200,
     QnSubHr := 5 # replicate 960 0, LastHourN := replicate 16 1, prevHour := 1 \<rparr>"

definition stoppedSlinky :: GLHESlinky where
  \<comment> \<open>A slinky heat exchanger that took up 5 W/m in the time step before, and has no flow.\<close>
  "stoppedSlinky = exampleSlinky \<lparr> NPairs := 3, LNTTS := [- 1, 0, 1], GFNC := [1, 3, 4],
     QnMonthlyAgg := replicate 12 0, QnHr := replicate 937 0, QnSubHr := 5 # replicate 960 0,
     LastHourN := replicate 16 1, prevHour := 1 \<rparr>"

subsection \<open>Simpson's rule\<close>

text \<open>
  Simpson's 1/3 rule on the nodes \<open>0, \<dots>, 2 M\<close>: the two end nodes count once, the odd nodes
  four times and the even nodes between the ends twice.
\<close>

definition simpsonNodes :: "int \<Rightarrow> (int \<Rightarrow> real) \<Rightarrow> real" where
  "simpsonNodes M F =
     F 0 + 4 * (\<Sum>i = 1..M. F (2 * i - 1)) + 2 * (\<Sum>i = 1..M - 1. F (2 * i)) + F (2 * M)"

text \<open>
  Simpson's 1/3 rule for the integral of \<open>f\<close> from \<open>a\<close> to \<open>b\<close> with an odd number of
  equidistant nodes, the first one \<open>a\<close> and the last one \<open>b\<close>.
\<close>

definition simpsonRule :: "int \<Rightarrow> real \<Rightarrow> real \<Rightarrow> (real \<Rightarrow> real) \<Rightarrow> real" where
  "simpsonRule nodes a b f =
    (let h = (b - a) / of_int (nodes - 1)
     in (h / 3) * simpsonNodes ((nodes - 1) div 2) (\<lambda>k. f (a + of_int k * h)))"

subsection \<open>The near field as a function of the offset of the rings\<close>

text \<open>
  \<^verbatim>\<open>distance\<close>, \<^verbatim>\<open>distanceToFictRing\<close> and \<^verbatim>\<open>nearFieldResponseFunction\<close> read the coordinates of
  the two rings only through the offsets \<open>dx = X0( n ) - X0( n1 )\<close> and
  \<open>dy = Y0( m ) - Y0( m1 )\<close> of their centres.
\<close>

definition separation :: "'a GLHESlinky_scheme \<Rightarrow> real \<Rightarrow> real \<Rightarrow> real \<Rightarrow> real \<Rightarrow> real" where
  "separation d dx dy eta theta =
    (let r = pipeOutDia d / 2; R = coilDiameter d / 2;
         u = dx + cos theta * R; v = dy + sin theta * R
     in if \<not> verticalConfig d then
          0.5 * sqrt ((u - cos eta * (R - r))\<^sup>2 + (v - sin eta * (R - r))\<^sup>2)
          + 0.5 * sqrt ((u - cos eta * (R + r))\<^sup>2 + (v - sin eta * (R + r))\<^sup>2)
        else
          0.5 * sqrt ((u - cos eta * (R - r))\<^sup>2 + (- dy)\<^sup>2 + (sin theta * R - sin eta * (R - r))\<^sup>2)
          + 0.5 * sqrt ((u - cos eta * (R + r))\<^sup>2 + (- dy)\<^sup>2 + (sin theta * R - sin eta * (R + r))\<^sup>2))"

definition fictSeparation :: "'a GLHESlinky_scheme \<Rightarrow> real \<Rightarrow> real \<Rightarrow> real \<Rightarrow> real \<Rightarrow> real" where
  "fictSeparation d dx dy eta theta =
    (let r = pipeOutDia d / 2; R = coilDiameter d / 2;
         u = dx + cos theta * R; w = sin theta * R + 2 * coilDepth d
     in 0.5 * sqrt ((u - cos eta * (R - r))\<^sup>2 + (- dy)\<^sup>2 + (w - sin eta * (R - r))\<^sup>2)
        + 0.5 * sqrt ((u - cos eta * (R + r))\<^sup>2 + (- dy)\<^sup>2 + (w - sin eta * (R + r))\<^sup>2))"

definition nearFieldOffset ::
  "'a GLHESlinky_scheme \<Rightarrow> real \<Rightarrow> real \<Rightarrow> real \<Rightarrow> real \<Rightarrow> real \<Rightarrow> real" where
  "nearFieldOffset d dx dy eta theta t =
    (let distance1 = separation d dx dy eta theta;
         sqrtAlphaT = sqrt (diffusivityGround d * t)
     in if \<not> verticalConfig d then
         (let sqrtDistDepth = sqrt (distance1\<^sup>2 + 4 * (coilDepth d)\<^sup>2)
          in erfc (0.5 * distance1 / sqrtAlphaT) / distance1
             - erfc (0.5 * sqrtDistDepth / sqrtAlphaT) / sqrtDistDepth)
        else
         (let distance2 = fictSeparation d dx dy eta theta
          in erfc (0.5 * distance1 / sqrtAlphaT) / distance1
             - erfc (0.5 * distance2 / sqrtAlphaT) / distance2))"

definition offsetIntegral ::
  "'a GLHESlinky_scheme \<Rightarrow> real \<Rightarrow> real \<Rightarrow> real \<Rightarrow> int \<Rightarrow> int \<Rightarrow> real" where
  "offsetIntegral d t dx dy I0 J0 =
     simpsonRule I0 0 (2 * pi) (\<lambda>eta.
       simpsonRule J0 0 (2 * pi) (\<lambda>theta. nearFieldOffset d dx dy eta theta t))"

subsection \<open>The response of a ring to a source ring\<close>

text \<open>
  The response of the ring \<open>(m, n)\<close> to the source ring \<open>(m1, n1)\<close> at the time \<open>t\<close>, by the
  distance of their centres: in the near field Simpson's rule in both angles, with 33 nodes
  for the source ring and 561 for the other one (1089 when the two rings are the same);
  in the far field nothing; between them the mid-field response.
\<close>

definition ringKernel :: "'a GLHESlinky_scheme \<Rightarrow> real \<Rightarrow> int \<Rightarrow> int \<Rightarrow> int \<Rightarrow> int \<Rightarrow> real" where
  "ringKernel d t m n m1 n1 =
    (if distToCenter d m n m1 n1 \<le> 2.5 + coilDiameter d then
       simpsonRule 33 0 (2 * pi) (\<lambda>eta.
         simpsonRule (if m1 = m \<and> n1 = n then 1089 else 561) 0 (2 * pi)
           (\<lambda>theta. nearFieldResponseFunction d m n m1 n1 eta theta t))
     else if distToCenter d m n m1 n1 > 10 + coilDiameter d then 0
     else midFieldResponseFunction d m n m1 n1 t)"

text \<open>
  The coordinates of the rings as \<^verbatim>\<open>calcGFunctions\<close> sets them: the coils of a trench lie
  \<^verbatim>\<open>coilPitch\<close> apart, the trenches \<^verbatim>\<open>trenchSpacing\<close>.
\<close>

definition ringsPlaced :: "'a GLHESlinky_scheme \<Rightarrow> bool" where
  "ringsPlaced d =
    ((\<forall>n \<in> {1..numCoils d}. at1 (X0 d) n = coilPitch d * of_int (n - 1))
     \<and> (\<forall>m \<in> {1..numTrenches d}. at1 (Y0 d) m = of_int (m - 1) * trenchSpacing d))"

text \<open>
  The four loops over the rings in \<^verbatim>\<open>calcGFunctions\<close>, from the innermost one: the state is
  \<^verbatim>\<open>valStored\<close> and \<^verbatim>\<open>gFunc\<close>.
\<close>

definition pairStep ::
  "'a GLHESlinky_scheme \<Rightarrow> real \<Rightarrow> int \<Rightarrow> int \<Rightarrow> int \<Rightarrow> int \<Rightarrow> int \<Rightarrow> int
     \<Rightarrow> (int \<times> int \<Rightarrow> real) \<times> real \<Rightarrow> (int \<times> int \<Rightarrow> real) \<times> real" where
  "pairStep d t numRC numLC m1 n1 m n = (\<lambda>(valStored, gFunc).
     (case ringResponse d t numRC numLC m1 n1 m n valStored of
        (gFuncin, valStored, calls) \<Rightarrow> (valStored, gFunc + gFuncin)))"

definition ringLoop ::
  "'a GLHESlinky_scheme \<Rightarrow> real \<Rightarrow> int \<Rightarrow> int \<Rightarrow> int \<Rightarrow> int \<Rightarrow> int
     \<Rightarrow> (int \<times> int \<Rightarrow> real) \<times> real \<Rightarrow> (int \<times> int \<Rightarrow> real) \<times> real" where
  "ringLoop d t numRC numLC m1 n1 m = forLoop 1 (numCoils d) (pairStep d t numRC numLC m1 n1 m)"

definition trenchLoop ::
  "'a GLHESlinky_scheme \<Rightarrow> real \<Rightarrow> int \<Rightarrow> int \<Rightarrow> int \<Rightarrow> int
     \<Rightarrow> (int \<times> int \<Rightarrow> real) \<times> real \<Rightarrow> (int \<times> int \<Rightarrow> real) \<times> real" where
  "trenchLoop d t numRC numLC m1 n1 = forLoop 1 (numTrenches d) (ringLoop d t numRC numLC m1 n1)"

definition sourceLoop ::
  "'a GLHESlinky_scheme \<Rightarrow> real \<Rightarrow> int \<Rightarrow> int \<Rightarrow> int
     \<Rightarrow> (int \<times> int \<Rightarrow> real) \<times> real \<Rightarrow> (int \<times> int \<Rightarrow> real) \<times> real" where
  "sourceLoop d t numRC numLC m1 = forLoop 1 numLC (trenchLoop d t numRC numLC m1)"

text \<open>
  The state in which the loops reach the pair of the source ring \<open>(m1, n1)\<close> and the ring
  \<open>(m, n)\<close>: all source rings before \<open>(m1, n1)\<close> are done, and for this source ring the
  trenches before \<open>m\<close> and, in trench \<open>m\<close>, the coils before \<open>n\<close>. What the pair adds to
  \<^verbatim>\<open>gFunc\<close> is its contribution; \<open>integralsEvaluated\<close> is the number of calls of
  \<^verbatim>\<open>doubleIntegral\<close> for the pair. The loops cover the source rings of a quarter of the
  field, \<open>m1 \<le> numRC\<close> and \<open>n1 \<le> numLC\<close>; for a source ring beyond it the state is the one
  the loops would reach if they went on to it.
\<close>

definition stateBefore ::
  "'a GLHESlinky_scheme \<Rightarrow> real \<Rightarrow> int \<Rightarrow> int \<Rightarrow> int \<Rightarrow> int \<Rightarrow> int \<Rightarrow> int
     \<Rightarrow> (int \<times> int \<Rightarrow> real) \<times> real" where
  "stateBefore d t numRC numLC m1 n1 m n =
     forLoop 1 (n - 1) (pairStep d t numRC numLC m1 n1 m)
      (forLoop 1 (m - 1) (ringLoop d t numRC numLC m1 n1)
        (forLoop 1 (n1 - 1) (trenchLoop d t numRC numLC m1)
          (forLoop 1 (m1 - 1) (sourceLoop d t numRC numLC) (\<lambda>ij. - 1.0, 0))))"

definition contribution ::
  "'a GLHESlinky_scheme \<Rightarrow> real \<Rightarrow> int \<Rightarrow> int \<Rightarrow> int \<Rightarrow> int \<Rightarrow> int \<Rightarrow> int \<Rightarrow> real" where
  "contribution d t numRC numLC m1 n1 m n =
     fst (ringResponse d t numRC numLC m1 n1 m n (fst (stateBefore d t numRC numLC m1 n1 m n)))"

definition integralsEvaluated ::
  "'a GLHESlinky_scheme \<Rightarrow> real \<Rightarrow> int \<Rightarrow> int \<Rightarrow> int \<Rightarrow> int \<Rightarrow> int \<Rightarrow> int \<Rightarrow> nat" where
  "integralsEvaluated d t numRC numLC m1 n1 m n =
     snd (snd (ringResponse d t numRC numLC m1 n1 m n (fst (stateBefore d t numRC numLC m1 n1 m n))))"

text \<open>
  What is stored for an offset is the response of every pair of rings with that offset,
  unless it is negative.
\<close>

definition storeSound :: "'a GLHESlinky_scheme \<Rightarrow> real \<Rightarrow> (int \<times> int \<Rightarrow> real) \<Rightarrow> bool" where
  "storeSound d t valStored =
    (\<forall>m \<in> {1..numTrenches d}. \<forall>n \<in> {1..numCoils d}.
     \<forall>m1 \<in> {1..numTrenches d}. \<forall>n1 \<in> {1..numCoils d}.
       valStored (\<bar>m - m1\<bar>, \<bar>n - n1\<bar>) < 0
       \<or> valStored (\<bar>m - m1\<bar>, \<bar>n - n1\<bar>) = ringKernel d t m n m1 n1)"

definition sampleTime :: "int \<Rightarrow> real" where
  \<comment> \<open>The time of the sample \<^verbatim>\<open>NT\<close> of the table, in seconds.\<close>
  "sampleTime NT = (10 powr (tLg_min + tLg_grid * of_int (NT - 1))) * ts"

text \<open>What the response of the field reads of a heat exchanger.\<close>

definition rings ::
  "'a GLHESlinky_scheme \<Rightarrow> 'a GLHESlinky_scheme \<times> real list \<times> real list \<times> real" where
  "rings d = (unwritten d, X0 d, Y0 d, Z0 d)"

section \<open>Proofs\<close>

subsection \<open>The g-function table\<close>

lemma cdiv2_nonneg: "0 \<le> a \<Longrightarrow> cdiv a 2 = a div 2"
  by (simp add: cdiv_def)

lemma at1_strict:
  assumes "sorted_wrt (<) L" "length L = nat n" "1 \<le> i" "i < j" "j \<le> n"
  shows "at1 L i < (at1 L j :: real)"
  using assms by (simp add: at1_def sorted_wrt_nth_less)

lemma binSearch_correct:
  assumes "sorted_wrt (<) L" "length L = nat n"
    and "1 \<le> Low" "High \<le> n" "Low \<le> High + 1"
    and "\<forall>i. 1 \<le> i \<and> i < Low \<longrightarrow> at1 L i < x"
    and "\<forall>i. High < i \<and> i \<le> n \<longrightarrow> x < at1 L i"
    and "Low \<le> High \<or> (Mid = Low - 1 \<and> 1 \<le> Mid \<and> at1 L Mid < x)
           \<or> (Mid = High + 1 \<and> Mid \<le> n \<and> x < at1 L Mid)"
    and "at1 L 1 < x" "x \<le> at1 L n"
    and "binSearch L x Low High Mid = (Found, M)"
  shows "(Found \<longrightarrow> 1 \<le> M \<and> M \<le> n \<and> at1 L M = x) \<and>
         (\<not> Found \<longrightarrow> (let M2 = (if at1 L M < x then M + 1 else M) in
              2 \<le> M2 \<and> M2 \<le> n \<and> at1 L (M2 - 1) < x \<and> x < at1 L M2))"
  using assms
proof (induction L x Low High Mid rule: binSearch.induct)
  case (1 L x Low High Mid)
  show ?case
  proof (cases "Low \<le> High")
    case False
    with "1.prems" have B: "Low = High + 1" and FM: "\<not> Found" "M = Mid" by auto
    from "1.prems"(8) False consider
      (r) "Mid = Low - 1" "1 \<le> Mid" "at1 L Mid < x" | (l) "Mid = High + 1" "Mid \<le> n" "x < at1 L Mid"
      by auto
    then show ?thesis
    proof cases
      case r
      have "Mid \<noteq> n" using r "1.prems"(10) by auto
      then have "Mid + 1 \<le> n" using r B "1.prems"(4) by simp
      moreover have "x < at1 L (Mid + 1)" using "1.prems"(7) r B \<open>Mid + 1 \<le> n\<close> by simp
      ultimately show ?thesis using FM r by (simp add: Let_def)
    next
      case l
      have "Mid \<noteq> 1" using l "1.prems"(9) by auto
      then have "2 \<le> Mid" using l B "1.prems"(3) by simp
      moreover have "at1 L (Mid - 1) < x" using "1.prems"(6) l B \<open>2 \<le> Mid\<close> by simp
      ultimately show ?thesis using FM l by (simp add: Let_def)
    qed
  next
    case True
    define Mid' where "Mid' = cdiv (Low + High) 2"
    have M': "Low \<le> Mid'" "Mid' \<le> High" using True "1.prems"(3) by (auto simp: Mid'_def cdiv_def)
    have rng: "1 \<le> Mid'" "Mid' \<le> n" using M' "1.prems" by auto
    consider (lt) "at1 L Mid' < x" | (gt) "\<not> at1 L Mid' < x" "at1 L Mid' > x" | (eq) "at1 L Mid' = x"
      by fastforce
    then show ?thesis
    proof cases
      case lt
      have rec: "binSearch L x (Mid' + 1) High Mid' = (Found, M)"
        using "1.prems"(11) True lt by (simp add: Mid'_def Let_def)
      have inv: "\<forall>i. 1 \<le> i \<and> i < Mid' + 1 \<longrightarrow> at1 L i < x"
      proof (intro allI impI)
        fix i assume "1 \<le> i \<and> i < Mid' + 1"
        then have "i = Mid' \<or> (1 \<le> i \<and> i < Mid')" by auto
        then show "at1 L i < x"
          using lt at1_strict[OF "1.prems"(1,2), of i Mid'] rng by fastforce
      qed
      show ?thesis
        by (rule "1.IH"(1)[OF True Mid'_def[symmetric, THEN sym] lt "1.prems"(1,2) _ "1.prems"(4) _ inv "1.prems"(7) _ "1.prems"(9,10) rec])
           (use M' rng lt in auto)
    next
      case gt
      have rec: "binSearch L x Low (Mid' - 1) Mid' = (Found, M)"
        using "1.prems"(11) True gt by (simp add: Mid'_def Let_def)
      have inv: "\<forall>i. Mid' - 1 < i \<and> i \<le> n \<longrightarrow> x < at1 L i"
      proof (intro allI impI)
        fix i assume "Mid' - 1 < i \<and> i \<le> n"
        then have "i = Mid' \<or> (Mid' < i \<and> i \<le> n)" by auto
        then show "x < at1 L i"
          using gt at1_strict[OF "1.prems"(1,2), of Mid' i] rng by fastforce
      qed
      show ?thesis
        by (rule "1.IH"(2)[OF True Mid'_def[symmetric, THEN sym] gt(1) gt(2) "1.prems"(1,2,3) _ _ "1.prems"(6) inv _ "1.prems"(9,10) rec])
           (use M' rng gt in auto)
    next
      case eq
      then have "Found" "M = Mid'" using "1.prems"(11) True by (auto simp: Mid'_def Let_def)
      then show ?thesis using rng eq by simp
    qed
  qed
qed

lemma interp_formula_onLine:
  assumes "a \<noteq> b"
  shows "onLine (a, ga) (b, gb) (x, ((x - b) / (a - b)) * (ga - gb) + gb)"
  using assms by (simp add: onLine_def field_simps)

lemma interp_formula_onLine':
  assumes "a \<noteq> b"
  shows "onLine (a, ga) (b, gb) (x, ((x - a) / (b - a)) * (gb - ga) + ga)"
  using assms by (simp add: onLine_def field_simps)

lemma interpGFunc_inner:
  assumes t: "tabulated d" and lo: "at1 (LNTTS d) 1 < x" and hi: "x \<le> at1 (LNTTS d) (NPairs d)"
  shows "(\<exists>k. 1 \<le> k \<and> k \<le> NPairs d \<and> at1 (LNTTS d) k = x \<and> interpGFunc d x = at1 (GFNC d) k)
       \<or> (\<exists>k. 2 \<le> k \<and> k \<le> NPairs d \<and> at1 (LNTTS d) (k - 1) < x \<and> x < at1 (LNTTS d) k
             \<and> interpGFunc d x = ((x - at1 (LNTTS d) k) / (at1 (LNTTS d) (k - 1) - at1 (LNTTS d) k))
                 * (at1 (GFNC d) (k - 1) - at1 (GFNC d) k) + at1 (GFNC d) k)"
proof -
  obtain Found M where bs: "binSearch (LNTTS d) x 1 (NPairs d) 0 = (Found, M)"
    by (cases "binSearch (LNTTS d) x 1 (NPairs d) 0")
  from t have s: "sorted_wrt (<) (LNTTS d)" and l: "length (LNTTS d) = nat (NPairs d)" and n: "2 \<le> NPairs d"
    by (auto simp: tabulated_def)
  have c: "(Found \<longrightarrow> 1 \<le> M \<and> M \<le> NPairs d \<and> at1 (LNTTS d) M = x) \<and>
         (\<not> Found \<longrightarrow> (let M2 = (if at1 (LNTTS d) M < x then M + 1 else M) in
              2 \<le> M2 \<and> M2 \<le> NPairs d \<and> at1 (LNTTS d) (M2 - 1) < x \<and> x < at1 (LNTTS d) M2))"
    by (rule binSearch_correct[OF s l _ _ _ _ _ _ lo hi bs]) (use n in auto)
  have unf: "interpGFunc d x = (if Found then at1 (GFNC d) M
            else
              (let Mid = (if at1 (LNTTS d) M < x then M + 1 else M) in
               ((x - at1 (LNTTS d) Mid) / (at1 (LNTTS d) (Mid - 1) - at1 (LNTTS d) Mid))
                 * (at1 (GFNC d) (Mid - 1) - at1 (GFNC d) Mid) + at1 (GFNC d) Mid))"
    using lo hi bs by (simp add: interpGFunc_def Let_def)
  show ?thesis
  proof (cases Found)
    case True
    then show ?thesis using c unf by auto
  next
    case False
    define M2 where "M2 = (if at1 (LNTTS d) M < x then M + 1 else M)"
    have "2 \<le> M2 \<and> M2 \<le> NPairs d \<and> at1 (LNTTS d) (M2 - 1) < x \<and> x < at1 (LNTTS d) M2"
      using c False by (simp add: M2_def Let_def)
    moreover have "interpGFunc d x = ((x - at1 (LNTTS d) M2) / (at1 (LNTTS d) (M2 - 1) - at1 (LNTTS d) M2))
                 * (at1 (GFNC d) (M2 - 1) - at1 (GFNC d) M2) + at1 (GFNC d) M2"
      using unf False by (simp add: M2_def Let_def)
    ultimately show ?thesis by blast
  qed
qed

text \<open>
  Claim C1. On a table with a strictly increasing log-time axis and at least two pairs,
  \<^verbatim>\<open>interpGFunc\<close> returns, for a query strictly between two adjacent entries, the value
  on the straight line through them; for a query equal to an entry, the stored response;
  below the first entry, the value on the line through entries 1 and 2; above the last
  entry, the value on the line through the last two entries.
\<close>

theorem interpGFunc_linear:
  assumes t: "tabulated d"
  shows "(\<forall>k x. 1 \<le> k \<and> k < NPairs d \<and> at1 (LNTTS d) k < x \<and> x < at1 (LNTTS d) (k + 1)
            \<longrightarrow> onLine (entry d k) (entry d (k + 1)) (x, interpGFunc d x))
       \<and> (\<forall>k. 1 \<le> k \<and> k \<le> NPairs d \<longrightarrow> interpGFunc d (at1 (LNTTS d) k) = at1 (GFNC d) k)
       \<and> (\<forall>x. x < at1 (LNTTS d) 1 \<longrightarrow> onLine (entry d 1) (entry d 2) (x, interpGFunc d x))
       \<and> (\<forall>x. at1 (LNTTS d) (NPairs d) < x
            \<longrightarrow> onLine (entry d (NPairs d - 1)) (entry d (NPairs d)) (x, interpGFunc d x))"
proof -
  from t have s: "sorted_wrt (<) (LNTTS d)" and l: "length (LNTTS d) = nat (NPairs d)" and n: "2 \<le> NPairs d"
    by (auto simp: tabulated_def)
  note st = at1_strict[OF s l]
  have inj: "i = j" if "at1 (LNTTS d) i = at1 (LNTTS d) j" "1 \<le> i" "i \<le> NPairs d" "1 \<le> j" "j \<le> NPairs d" for i j
  proof (rule ccontr)
    assume "i \<noteq> j"
    then consider "i < j" | "j < i" by linarith
    then show False using st[of i j] st[of j i] that by cases auto
  qed
  have mono: "i < j" if "at1 (LNTTS d) i < at1 (LNTTS d) j" "1 \<le> i" "i \<le> NPairs d" "1 \<le> j" "j \<le> NPairs d" for i j
  proof (rule ccontr)
    assume "\<not> i < j"
    then consider "i = j" | "j < i" by linarith
    then show False using st[of j i] that by cases auto
  qed
  have A: "onLine (entry d k) (entry d (k + 1)) (x, interpGFunc d x)"
    if h: "1 \<le> k" "k < NPairs d" "at1 (LNTTS d) k < x" "x < at1 (LNTTS d) (k + 1)" for k x
  proof -
    have lo: "at1 (LNTTS d) 1 < x"
    proof (cases "k = 1")
      case True then show ?thesis using h by simp
    next
      case False then show ?thesis using st[of 1 k] h by simp
    qed
    have hi: "x \<le> at1 (LNTTS d) (NPairs d)"
    proof (cases "k + 1 = NPairs d")
      case True then show ?thesis using h by simp
    next
      case False then show ?thesis using st[of "k + 1" "NPairs d"] h by simp
    qed
    from interpGFunc_inner[OF t lo hi] show ?thesis
    proof (elim disjE exE conjE)
      fix j assume j: "1 \<le> j" "j \<le> NPairs d" "at1 (LNTTS d) j = x"
      have "k < j" using mono[of k j] h j by simp
      moreover have "j < k + 1" using mono[of j "k + 1"] h j by simp
      ultimately show ?thesis by simp
    next
      fix j assume j: "2 \<le> j" "j \<le> NPairs d" "at1 (LNTTS d) (j - 1) < x" "x < at1 (LNTTS d) j"
        and v: "interpGFunc d x = ((x - at1 (LNTTS d) j) / (at1 (LNTTS d) (j - 1) - at1 (LNTTS d) j))
                 * (at1 (GFNC d) (j - 1) - at1 (GFNC d) j) + at1 (GFNC d) j"
      have "k < j" using mono[of k j] h j by simp
      moreover have "j - 1 < k + 1" using mono[of "j - 1" "k + 1"] h j by simp
      ultimately have "j = k + 1" by simp
      then show ?thesis using v h interp_formula_onLine[of "at1 (LNTTS d) k" "at1 (LNTTS d) (k + 1)"]
        by (simp add: entry_def)
    qed
  qed
  have B: "interpGFunc d (at1 (LNTTS d) k) = at1 (GFNC d) k" if h: "1 \<le> k" "k \<le> NPairs d" for k
  proof (cases "k = 1")
    case True
    then show ?thesis by (simp add: interpGFunc_def Let_def)
  next
    case False
    then have lo: "at1 (LNTTS d) 1 < at1 (LNTTS d) k" using st[of 1 k] h by simp
    have hi: "at1 (LNTTS d) k \<le> at1 (LNTTS d) (NPairs d)"
      using st[of k "NPairs d"] h by (cases "k = NPairs d") auto
    from interpGFunc_inner[OF t lo hi] show ?thesis
    proof (elim disjE exE conjE)
      fix j assume j: "1 \<le> j" "j \<le> NPairs d" "at1 (LNTTS d) j = at1 (LNTTS d) k"
        and v: "interpGFunc d (at1 (LNTTS d) k) = at1 (GFNC d) j"
      then show ?thesis using inj[of j k] h by simp
    next
      fix j assume j: "2 \<le> j" "j \<le> NPairs d" "at1 (LNTTS d) (j - 1) < at1 (LNTTS d) k" "at1 (LNTTS d) k < at1 (LNTTS d) j"
      have "j - 1 < k" using mono[of "j - 1" k] h j by simp
      moreover have "k < j" using mono[of k j] h j by simp
      ultimately show ?thesis by simp
    qed
  qed
  have ne12: "at1 (LNTTS d) 1 \<noteq> at1 (LNTTS d) 2" using st[of 1 2] n by simp
  have neN: "at1 (LNTTS d) (NPairs d - 1) \<noteq> at1 (LNTTS d) (NPairs d)" using st[of "NPairs d - 1" "NPairs d"] n by simp
  have C: "onLine (entry d 1) (entry d 2) (x, interpGFunc d x)" if "x < at1 (LNTTS d) 1" for x
    using that interp_formula_onLine'[OF ne12] by (simp add: interpGFunc_def Let_def entry_def)
  have D: "onLine (entry d (NPairs d - 1)) (entry d (NPairs d)) (x, interpGFunc d x)"
    if "at1 (LNTTS d) (NPairs d) < x" for x
  proof -
    have "at1 (LNTTS d) 1 < x" using st[of 1 "NPairs d"] n that by simp
    then show ?thesis using that interp_formula_onLine[OF neN] by (simp add: interpGFunc_def Let_def entry_def)
  qed
  show ?thesis using A B C D by blast
qed

theorem interpGFunc_linear_witness:
  "tabulated tableGLHE
   \<and> interpGFunc tableGLHE 1 = 7 / 2
   \<and> interpGFunc tableGLHE 0 = 3
   \<and> interpGFunc tableGLHE (- 2) = - 1
   \<and> interpGFunc tableGLHE 4 = 5"
proof -
  have t: "tabulated tableGLHE"
    by (simp add: tabulated_def tableGLHE_def blankGLHE_def)
  have v: "at1 (LNTTS tableGLHE) 1 = - 1" "at1 (LNTTS tableGLHE) 2 = 0" "at1 (LNTTS tableGLHE) 3 = 2"
    "at1 (GFNC tableGLHE) 1 = 1" "at1 (GFNC tableGLHE) 2 = 3" "at1 (GFNC tableGLHE) 3 = 4"
    "NPairs tableGLHE = 3"
    by (simp_all add: tableGLHE_def blankGLHE_def at1_def)
  note th = interpGFunc_linear[OF t]
  have "onLine (entry tableGLHE 2) (entry tableGLHE (2 + 1)) (1, interpGFunc tableGLHE 1)"
    by (rule th[THEN conjunct1, rule_format]) (simp add: v)
  then have a: "interpGFunc tableGLHE 1 = 7 / 2" using v by (simp add: onLine_def entry_def)
  have "interpGFunc tableGLHE (at1 (LNTTS tableGLHE) 2) = at1 (GFNC tableGLHE) 2"
    by (rule th[THEN conjunct2, THEN conjunct1, rule_format]) (simp add: v)
  then have b: "interpGFunc tableGLHE 0 = 3" using v by simp
  have "onLine (entry tableGLHE 1) (entry tableGLHE 2) (- 2, interpGFunc tableGLHE (- 2))"
    by (rule th[THEN conjunct2, THEN conjunct2, THEN conjunct1, rule_format]) (simp add: v)
  then have c: "interpGFunc tableGLHE (- 2) = - 1" using v by (simp add: onLine_def entry_def)
  have "onLine (entry tableGLHE (NPairs tableGLHE - 1)) (entry tableGLHE (NPairs tableGLHE)) (4, interpGFunc tableGLHE 4)"
    by (rule th[THEN conjunct2, THEN conjunct2, THEN conjunct2, rule_format]) (simp add: v)
  then have d: "interpGFunc tableGLHE 4 = 5" using v by (simp add: onLine_def entry_def)
  show ?thesis using t a b c d by simp
qed

lemma forSum_eq:
  "forSum I limit body acc
     = (acc + (\<Sum>J = I..limit. body J), if I \<le> limit then limit + 1 else I)"
proof (induction I limit body acc rule: forSum.induct)
  case (1 I limit body acc)
  show ?case
  proof (cases "I \<le> limit")
    case True
    have s: "{I..limit} = insert I {I + 1..limit}" using True by auto
    have "(\<Sum>J = I..limit. body J) = body I + (\<Sum>J = I + 1..limit. body J)"
      unfolding s by (subst sum.insert) auto
    then show ?thesis using True "1.IH"[OF True]
      by (subst forSum.simps) (simp add: algebra_simps)
  next
    case False
    then show ?thesis by (subst forSum.simps) simp
  qed
qed

lemma strictly_decreasing_span:
  fixes p :: "int \<Rightarrow> real"
  assumes "\<forall>J. 1 \<le> J \<and> J \<le> M \<longrightarrow> p (J + 1) < p J" "1 \<le> M"
  shows "p (M + 1) < p 1"
proof -
  have "1 \<le> K \<Longrightarrow> K \<le> M \<Longrightarrow> p (K + 1) < p 1" for K
  proof (induction K rule: int_ge_induct)
    case base
    then show ?case using assms(1)[rule_format, of 1] assms(2) by simp
  next
    case (step i)
    then have "p (i + 1 + 1) < p (i + 1)" using assms(1)[rule_format, of "i + 1"] by simp
    with step show ?case by simp
  qed
  then show ?thesis using assms(2) by simp
qed

text \<open>
  Claim C5. When the hour changes and the time stamps of the sub-hourly loads of the hour
  are strictly decreasing (the most recent first), the load that \<^verbatim>\<open>calcAggregateLoad\<close>
  pushes into the hourly history, times the span from the start of the hour to the
  current time, is the sum of the sub-hourly loads of the hour, each times its own span.
\<close>

theorem aggregation_conserves_energy:
  assumes "0 < currentSimTime g" and "prevHour d \<noteq> locHourOfDay g" and "QnHr d \<noteq> []"
    and "M = N g - at1 (LastHourN d) 1" and "1 \<le> M"
    and "\<forall>J. 1 \<le> J \<and> J \<le> M \<longrightarrow> at1 (prevTimeSteps g) (J + 1) < at1 (prevTimeSteps g) J"
  shows "at1 (QnHr (calcAggregateLoad g d)) 1 = SumQnHr g d
       \<and> SumQnHr g d * \<bar>at1 (prevTimeSteps g) 1 - at1 (prevTimeSteps g) (M + 1)\<bar>
           = (\<Sum>J = 1..M. at1 (QnSubHr d) J * \<bar>at1 (prevTimeSteps g) J - at1 (prevTimeSteps g) (J + 1)\<bar>)"
proof -
  have span: "at1 (prevTimeSteps g) (M + 1) < at1 (prevTimeSteps g) 1"
    using strictly_decreasing_span[of M "at1 (prevTimeSteps g)"] assms(5,6) by simp
  have v: "SumQnHr g d = (\<Sum>J = 1..M. at1 (QnSubHr d) J * \<bar>at1 (prevTimeSteps g) J - at1 (prevTimeSteps g) (J + 1)\<bar>)
             / \<bar>at1 (prevTimeSteps g) 1 - at1 (prevTimeSteps g) (M + 1)\<bar>"
    using assms(4,5) by (simp add: SumQnHr_def forSum_eq)
  have push: "at1 (QnHr (calcAggregateLoad g d)) 1 = SumQnHr g d"
  proof -
    have "QnHr (calcAggregateLoad g d) = eoshift (QnHr d) (SumQnHr g d)"
      using assms(1,2) by (simp add: calcAggregateLoad_def Let_def)
    then show ?thesis using assms(3) by (simp add: eoshift_def at1_def)
  qed
  show ?thesis using push v span by simp
qed

lemma forLoop_invariant:
  "(\<And>I s. P s \<Longrightarrow> P (body I s)) \<Longrightarrow> P s \<Longrightarrow> P (forLoop I limit body s)"
proof (induction I limit body s rule: forLoop.induct)
  case (1 I limit body s)
  show ?case
  proof (cases "I \<le> limit")
    case True
    have "P (body I s)" using "1.prems" by simp
    then have "P (forLoop (I + 1) limit body (body I s))" using "1.IH"[OF True] "1.prems"(1) by simp
    then show ?thesis using True by (subst forLoop.simps) simp
  next
    case False
    then show ?thesis using "1.prems" by (subst forLoop.simps) simp
  qed
qed

subsection \<open>The phases of calcGroundHeatExchanger\<close>

lemma currentSimTime_setClock: "currentSimTime (setClock ex g) = simTime ex"
  by (simp add: setClock_def Let_def)

lemma calcAggregateLoad_form:
  "calcAggregateLoad g d = d \<lparr> QnHr := QnHr (calcAggregateLoad g d),
      LastHourN := LastHourN (calcAggregateLoad g d),
      QnMonthlyAgg := QnMonthlyAgg (calcAggregateLoad g d),
      prevHour := prevHour (calcAggregateLoad g d) \<rparr>"
  unfolding calcAggregateLoad_def Let_def by simp

lemma resetHistory_form:
  "snd (resetHistory ex (g, d)) = d \<lparr> QnHr := QnHr (snd (resetHistory ex (g, d))),
      QnMonthlyAgg := QnMonthlyAgg (snd (resetHistory ex (g, d))),
      QnSubHr := QnSubHr (snd (resetHistory ex (g, d))),
      LastHourN := LastHourN (snd (resetHistory ex (g, d))) \<rparr>"
  unfolding resetHistory_def Let_def by simp

lemma pushStep_form:
  "snd (pushStep (g, d)) = d \<lparr> QnSubHr := QnSubHr (snd (pushStep (g, d))) \<rparr>"
  unfolding pushStep_def Let_def by simp

lemma currentSimTime_pushStep: "currentSimTime (fst (pushStep (g, d))) = currentSimTime g"
  unfolding pushStep_def Let_def by simp

lemma interpGFunc_cong:
  assumes "LNTTS d' = LNTTS d" "GFNC d' = GFNC d" "NPairs d' = NPairs d"
  shows "interpGFunc d' = interpGFunc d"
  using assms by (simp add: interpGFunc_def fun_eq_iff)

lemma RQ_cong:
  assumes "LNTTS d' = LNTTS d" "GFNC d' = GFNC d" "NPairs d' = NPairs d"
    and "timeSSFactor d' = timeSSFactor d" "kGround d' = kGround d"
  shows "RQ d' = RQ d"
  using assms interpGFunc_cong[OF assms(1,2,3)] by (simp add: RQ_def kGroundFactor_def fun_eq_iff)

lemma sumTotal_cong:
  assumes "N g' = N g" "currentSimTime g' = currentSimTime g" "prevTimeSteps g' = prevTimeSteps g"
    and "LNTTS d' = LNTTS d" "GFNC d' = GFNC d" "NPairs d' = NPairs d"
    and "timeSSFactor d' = timeSSFactor d" "kGround d' = kGround d"
    and "QnSubHr d' = QnSubHr d" "QnHr d' = QnHr d" "QnMonthlyAgg d' = QnMonthlyAgg d"
    and "LastHourN d' = LastHourN d" "SubAGG d' = SubAGG d" "AGG d' = AGG d"
  shows "sumTotal g' d' = sumTotal g d"
proof -
  have rq: "RQ d' = RQ d" by (rule RQ_cong[OF assms(4,5,6,7,8)])
  have a: "sumNoAggregation g' d' = sumNoAggregation g d"
    unfolding sumNoAggregation_def by (simp only: assms rq)
  have b: "sumAggregation g' d' = sumAggregation g d"
    unfolding sumAggregation_def by (simp only: assms rq)
  show ?thesis unfolding sumTotal_def by (simp only: assms a b)
qed

lemma sumTotal_outputs:
  "sumTotal (g \<lparr> ToutNew := a \<rparr>)
     (d \<lparr> boreholeTemp := b, lastQnSubHr := c, outletTemp := e, QGLHE := f, aveFluidTemp := h \<rparr>)
   = sumTotal g d"
  by (rule sumTotal_cong) simp_all

lemma respond_zero_flow:
  assumes "massFlowRate d \<le> 0"
  shows "respond g d cp = (0, tempGround d - sumTotal g d, inletTemp d)"
  using assms by (simp add: respond_def firstStep_def lastStep_def sumTotal_def Let_def)

text \<open>The call at a positive time, as a chain of its phases.\<close>

lemma calc_active:
  assumes "0 < simTime ex"
  shows "calcGroundHeatExchanger cgf gatc hxr ex (g, d) =
    (let d3 = gatc ((if firstTime g then cgf d else d) \<lparr> inletTemp := NodeTemp g (inletNodeNum (if firstTime g then cgf d else d)) \<rparr>);
         cp = cpGlycol ex (NodeTemp g (inletNodeNum (if firstTime g then cgf d else d)));
         r = resetHistory ex (g \<lparr> firstTime := False \<rparr>, d3);
         p = pushStep (setClock ex (fst r), snd r);
         d8 = hxr ex (calcAggregateLoad (fst p) (snd p));
         q = respond (fst p) d8 cp;
         g9 = (fst p) \<lparr> ToutNew := snd (snd q) \<rparr>
     in (g9, d8 \<lparr> boreholeTemp := tempGround d8 - sumTotal g9 d8, lastQnSubHr := fst q,
                  outletTemp := snd (snd q), QGLHE := fst q * totalTubeLength d8,
                  aveFluidTemp := fst (snd q) \<rparr>))"
  using assms
  by (simp add: calcGroundHeatExchanger_def Let_def split_def currentSimTime_setClock)

lemma massFlowRate_resetHistory: "massFlowRate (snd (resetHistory ex (g, d))) = massFlowRate d"
  by (subst resetHistory_form) simp

lemma massFlowRate_pushStep: "massFlowRate (snd (pushStep (g, d))) = massFlowRate d"
  by (subst pushStep_form) simp

lemma massFlowRate_calcAggregateLoad: "massFlowRate (calcAggregateLoad g d) = massFlowRate d"
  by (subst calcAggregateLoad_form) simp

lemma zero_flow_generic:
  assumes cgf: "\<And>d. massFlowRate (cgf d) = massFlowRate d"
    and gatc: "\<And>d. massFlowRate (gatc d) = massFlowRate d"
    and hxr: "\<And>d. massFlowRate (hxr ex d) = massFlowRate d"
    and flow: "massFlowRate d \<le> 0" and time: "0 < simTime ex"
    and res: "calcGroundHeatExchanger cgf gatc hxr ex (g, d) = (g', d')"
  shows "QGLHE d' = 0 \<and> outletTemp d' = inletTemp d'
       \<and> aveFluidTemp d' = tempGround d' - sumTotal g' d'
       \<and> boreholeTemp d' = tempGround d' - sumTotal g' d'"
proof -
  define d3 where "d3 = gatc ((if firstTime g then cgf d else d) \<lparr> inletTemp := NodeTemp g (inletNodeNum (if firstTime g then cgf d else d)) \<rparr>)"
  define cp where "cp = cpGlycol ex (NodeTemp g (inletNodeNum (if firstTime g then cgf d else d)))"
  define r where "r = resetHistory ex (g \<lparr> firstTime := False \<rparr>, d3)"
  define p where "p = pushStep (setClock ex (fst r), snd r)"
  define d8 where "d8 = hxr ex (calcAggregateLoad (fst p) (snd p))"
  define q where "q = respond (fst p) d8 cp"
  define g9 where "g9 = (fst p) \<lparr> ToutNew := snd (snd q) \<rparr>"
  have f3: "massFlowRate d3 = massFlowRate d"
    by (simp add: d3_def gatc cgf)
  have "massFlowRate (snd r) = massFlowRate d"
    unfolding r_def using massFlowRate_resetHistory f3 by metis
  then have "massFlowRate (snd p) = massFlowRate d"
    unfolding p_def using massFlowRate_pushStep by metis
  then have f8: "massFlowRate d8 \<le> 0"
    unfolding d8_def using hxr massFlowRate_calcAggregateLoad flow by metis
  have q: "q = (0, tempGround d8 - sumTotal (fst p) d8, inletTemp d8)"
    unfolding q_def by (rule respond_zero_flow[OF f8])
  have "calcGroundHeatExchanger cgf gatc hxr ex (g, d) =
      (g9, d8 \<lparr> boreholeTemp := tempGround d8 - sumTotal g9 d8, lastQnSubHr := fst q,
                  outletTemp := snd (snd q), QGLHE := fst q * totalTubeLength d8,
                  aveFluidTemp := fst (snd q) \<rparr>)"
    unfolding calc_active[OF time] Let_def d3_def cp_def r_def p_def d8_def q_def g9_def ..
  then have eq: "(g', d') = (g9, d8 \<lparr> boreholeTemp := tempGround d8 - sumTotal g9 d8, lastQnSubHr := fst q,
                  outletTemp := snd (snd q), QGLHE := fst q * totalTubeLength d8,
                  aveFluidTemp := fst (snd q) \<rparr>)"
    using res by simp
  have g': "g' = g9" using eq by (rule Pair_inject)
  have d': "d' = d8 \<lparr> boreholeTemp := tempGround d8 - sumTotal g9 d8, lastQnSubHr := fst q,
                  outletTemp := snd (snd q), QGLHE := fst q * totalTubeLength d8,
                  aveFluidTemp := fst (snd q) \<rparr>"
    using eq by (rule Pair_inject)
  have s9: "sumTotal g9 d8 = sumTotal (fst p) d8"
    unfolding g9_def by (rule sumTotal_cong) simp_all
  have s': "sumTotal g' d' = sumTotal (fst p) d8"
    unfolding g' d' g9_def by (rule sumTotal_cong) simp_all
  show ?thesis
    unfolding s' unfolding d' s9 q by simp
qed

lemma GLHEVert_getAnnualTimeConstant_form:
  "GLHEVert_getAnnualTimeConstant d = d \<lparr> timeSS := timeSS (GLHEVert_getAnnualTimeConstant d),
      timeSSFactor := timeSSFactor (GLHEVert_getAnnualTimeConstant d) \<rparr>"
  unfolding GLHEVert_getAnnualTimeConstant_def Let_def by simp

lemma GLHEVert_calcHXResistance_form:
  "GLHEVert_calcHXResistance ex d = d \<lparr> HXResistance := HXResistance (GLHEVert_calcHXResistance ex d) \<rparr>"
  unfolding GLHEVert_calcHXResistance_def Let_def split_def by simp

lemma GLHESlinky_getAnnualTimeConstant_form:
  "GLHESlinky_getAnnualTimeConstant d = d \<lparr> timeSS := timeSS (GLHESlinky_getAnnualTimeConstant d),
      timeSSFactor := timeSSFactor (GLHESlinky_getAnnualTimeConstant d) \<rparr>"
  unfolding GLHESlinky_getAnnualTimeConstant_def Let_def by simp

lemma GLHESlinky_calcHXResistance_form:
  "GLHESlinky_calcHXResistance ex d = d \<lparr> HXResistance := HXResistance (GLHESlinky_calcHXResistance ex d) \<rparr>"
  unfolding GLHESlinky_calcHXResistance_def Let_def by simp

lemma unwritten_update:
  "unwritten (d \<lparr> GFNC := a \<rparr>) = unwritten d"
  "unwritten (d \<lparr> LNTTS := b \<rparr>) = unwritten d"
  "unwritten (d \<lparr> X0 := x \<rparr>) = unwritten d"
  "unwritten (d \<lparr> Y0 := y \<rparr>) = unwritten d"
  "unwritten (d \<lparr> Z0 := z \<rparr>) = unwritten d"
  "unwritten (d \<lparr> gFuncCalls := c \<rparr>) = unwritten d"
  by (simp_all add: unwritten_def)

lemma unwritten_calcGFunctions: "unwritten (GLHESlinky_calcGFunctions d) = unwritten d"
proof -
  define d1 where "d1 = d \<lparr> X0 := allocate (numCoils d), Y0 := allocate (numTrenches d) \<rparr>"
  define d2 where "d2 = d1 \<lparr> NPairs := toInt ((tLg_max d1 - tLg_min) / tLg_grid + 1) \<rparr>"
  define d3 where "d3 = d2 \<lparr> GFNC := allocate (NPairs d2), LNTTS := allocate (NPairs d2),
                 QnMonthlyAgg := allocate (toInt (maxSimYears d2 * 12)),
                 QnHr := allocate (toInt (730 + 192.0 + 15.0)),
                 QnSubHr := allocate (toInt ((15.0 + 1) * of_int maxTSinHr + 1)),
                 LastHourN := allocate (toInt (15.0 + 1)) \<rparr>"
  define d4 where "d4 = forLoop 1 (NPairs d3)
               (\<lambda>i d. d \<lparr> GFNC := put1 (GFNC d) i 0.0, LNTTS := put1 (LNTTS d) i 0.0 \<rparr>) d3"
  define d5 where "d5 = forLoop 1 (numCoils d4)
               (\<lambda>coil d. d \<lparr> X0 := put1 (X0 d) coil (coilPitch d * of_int (coil - 1)) \<rparr>) d4"
  define d6 where "d6 = forLoop 1 (numTrenches d5)
               (\<lambda>trench d. d \<lparr> Y0 := put1 (Y0 d) trench (of_int (trench - 1) * trenchSpacing d) \<rparr>) d5"
  define d7 where "d7 = d6 \<lparr> Z0 := coilDepth d6 \<rparr>"
  define numLC where "numLC = \<lceil>of_int (numCoils d4) / (2.0::real)\<rceil>"
  define numRC where "numRC = \<lceil>of_int (numTrenches d4) / (2.0::real)\<rceil>"
  define d8 where "d8 = forLoop 1 (NPairs d7)
               (\<lambda>NT d.
                  (let tLg = tLg_min + tLg_grid * of_int (NT - 1);
                       t = (10 powr tLg) * ts;
                       gFunc = fieldResponse d t numRC numLC
                   in d \<lparr> GFNC := put1 (GFNC d) NT
                              ((gFunc * (coilDiameter d / 2.0))
                                / (4 * pi * (if numTrenches d7 > 1 then 0.25 else 0.5) * of_int (numTrenches d) * of_int (numCoils d))),
                           LNTTS := put1 (LNTTS d) NT tLg \<rparr>)) d7"
  have r: "GLHESlinky_calcGFunctions d = d8 \<lparr> gFuncCalls := gFuncCalls d8 + 1 \<rparr>"
    unfolding GLHESlinky_calcGFunctions_def Let_def d8_def d7_def d6_def d5_def d4_def d3_def d2_def d1_def
      numLC_def numRC_def ..
  have u3: "unwritten d3 = unwritten d" unfolding d3_def d2_def d1_def unwritten_def by simp
  have u4: "unwritten d4 = unwritten d"
    unfolding d4_def by (rule forLoop_invariant) (simp_all add: u3 unwritten_update)
  have u5: "unwritten d5 = unwritten d"
    unfolding d5_def by (rule forLoop_invariant) (simp_all add: u4 unwritten_update)
  have u6: "unwritten d6 = unwritten d"
    unfolding d6_def by (rule forLoop_invariant) (simp_all add: u5 unwritten_update)
  have u7: "unwritten d7 = unwritten d" using u6 by (simp add: d7_def unwritten_update)
  have u8: "unwritten d8 = unwritten d"
    unfolding d8_def by (rule forLoop_invariant) (simp_all add: u7 unwritten_update Let_def)
  show ?thesis unfolding r using u8 by (simp add: unwritten_update)
qed

lemma simTime_firstInstant: "simTime firstInstant = 0"
  by (simp add: simTime_def firstInstant_def)

lemma simTime_secondStep: "simTime secondStep = 1 / 4"
  by (simp add: simTime_def secondStep_def firstInstant_def)

subsection \<open>The call at a time that is not positive\<close>

lemma calc_inactive:
  assumes "simTime ex \<le> 0"
  shows "calcGroundHeatExchanger cgf gatc hxr ex (g, d) =
    (let d3 = gatc ((if firstTime g then cgf d else d) \<lparr> inletTemp := NodeTemp g (inletNodeNum (if firstTime g then cgf d else d)) \<rparr>);
         r = resetHistory ex (g \<lparr> firstTime := False \<rparr>, d3);
         g5 = setClock ex (fst r)
     in (g5 \<lparr> prevTimeSteps := fill (prevTimeSteps g5) 0.0 \<rparr>, (snd r) \<lparr> outletTemp := inletTemp (snd r) \<rparr>))"
  using assms
  by (simp add: calcGroundHeatExchanger_def Let_def split_def currentSimTime_setClock calcAggregateLoad_def)

lemma inactive_generic:
  assumes cgf: "\<And>d. QGLHE (cgf d) = QGLHE d"
    and gatc: "\<And>d. QGLHE (gatc d) = QGLHE d"
    and gatc': "\<And>d. inletTemp (gatc d) = inletTemp d"
    and time: "simTime ex \<le> 0"
  shows "QGLHE (snd (calcGroundHeatExchanger cgf gatc hxr ex (g, d))) = QGLHE d
       \<and> outletTemp (snd (calcGroundHeatExchanger cgf gatc hxr ex (g, d)))
           = inletTemp (snd (calcGroundHeatExchanger cgf gatc hxr ex (g, d)))"
proof -
  define d3 where "d3 = gatc ((if firstTime g then cgf d else d) \<lparr> inletTemp := NodeTemp g (inletNodeNum (if firstTime g then cgf d else d)) \<rparr>)"
  define r where "r = resetHistory ex (g \<lparr> firstTime := False \<rparr>, d3)"
  have r: "snd (calcGroundHeatExchanger cgf gatc hxr ex (g, d)) = (snd r) \<lparr> outletTemp := inletTemp (snd r) \<rparr>"
    unfolding calc_inactive[OF time] Let_def d3_def r_def by simp
  have "QGLHE d3 = QGLHE d" by (simp add: d3_def gatc cgf)
  moreover have "QGLHE (snd r) = QGLHE d3" unfolding r_def by (subst resetHistory_form) simp
  ultimately show ?thesis unfolding r by simp
qed

lemma unwritten_field:
  "QGLHE d = QGLHE (unwritten d)" "massFlowRate d = massFlowRate (unwritten d)"
  "inletNodeNum d = inletNodeNum (unwritten d)" "inletTemp d = inletTemp (unwritten d)"
  by (simp_all add: unwritten_def)

lemma GLHESlinky_calcGFunctions_keeps:
  "QGLHE (GLHESlinky_calcGFunctions d) = QGLHE d"
  "massFlowRate (GLHESlinky_calcGFunctions d) = massFlowRate d"
  "inletNodeNum (GLHESlinky_calcGFunctions d) = inletNodeNum d"
  "inletTemp (GLHESlinky_calcGFunctions d) = inletTemp d"
  using unwritten_calcGFunctions[of d] unwritten_field by metis+

lemma GLHEVert_virtuals_keep:
  "QGLHE (GLHEVert_calcGFunctions d) = QGLHE d"
  "massFlowRate (GLHEVert_calcGFunctions d) = massFlowRate d"
  "QGLHE (GLHEVert_getAnnualTimeConstant d) = QGLHE d"
  "inletTemp (GLHEVert_getAnnualTimeConstant d) = inletTemp d"
  "massFlowRate (GLHEVert_getAnnualTimeConstant d) = massFlowRate d"
  "massFlowRate (GLHEVert_calcHXResistance ex d) = massFlowRate d"
  by (simp_all add: GLHEVert_calcGFunctions_def GLHEVert_getAnnualTimeConstant_def Let_def
        GLHEVert_calcHXResistance_def split_def)

lemma GLHESlinky_virtuals_keep:
  "QGLHE (GLHESlinky_getAnnualTimeConstant d) = QGLHE d"
  "inletTemp (GLHESlinky_getAnnualTimeConstant d) = inletTemp d"
  "massFlowRate (GLHESlinky_getAnnualTimeConstant d) = massFlowRate d"
  "massFlowRate (GLHESlinky_calcHXResistance ex d) = massFlowRate d"
  by (simp_all add: GLHESlinky_getAnnualTimeConstant_def Let_def GLHESlinky_calcHXResistance_def)

text \<open>
  Claim C2, on the code. A heat exchanger that transferred 1000 W at the end of one
  environment is called at the first instant of the next one (time 0): the outlet
  temperature is the inlet temperature, and the heat rate reported is still 1000 W.
\<close>

theorem inactive_heat_rate_is_stale:
  "simTime firstInstant \<le> 0
   \<and> outletTemp (snd (GLHEVert_calcGroundHeatExchanger firstInstant (startModule, exampleVert \<lparr> QGLHE := 1000 \<rparr>)))
       = inletTemp (snd (GLHEVert_calcGroundHeatExchanger firstInstant (startModule, exampleVert \<lparr> QGLHE := 1000 \<rparr>)))
   \<and> QGLHE (snd (GLHEVert_calcGroundHeatExchanger firstInstant (startModule, exampleVert \<lparr> QGLHE := 1000 \<rparr>))) = 1000
   \<and> QGLHE (snd (GLHESlinky_calcGroundHeatExchanger firstInstant (startModule, exampleSlinky \<lparr> QGLHE := 1000 \<rparr>))) = 1000"
proof -
  have t: "simTime firstInstant \<le> 0" by (simp add: simTime_firstInstant)
  have v: "QGLHE (snd (GLHEVert_calcGroundHeatExchanger firstInstant (startModule, exampleVert \<lparr> QGLHE := 1000 \<rparr>)))
            = QGLHE (exampleVert \<lparr> QGLHE := 1000 \<rparr>)
        \<and> outletTemp (snd (GLHEVert_calcGroundHeatExchanger firstInstant (startModule, exampleVert \<lparr> QGLHE := 1000 \<rparr>)))
       = inletTemp (snd (GLHEVert_calcGroundHeatExchanger firstInstant (startModule, exampleVert \<lparr> QGLHE := 1000 \<rparr>)))"
    unfolding GLHEVert_calcGroundHeatExchanger_def
    by (rule inactive_generic[OF GLHEVert_virtuals_keep(1) GLHEVert_virtuals_keep(3) GLHEVert_virtuals_keep(4) t])
  have s: "QGLHE (snd (GLHESlinky_calcGroundHeatExchanger firstInstant (startModule, exampleSlinky \<lparr> QGLHE := 1000 \<rparr>)))
            = QGLHE (exampleSlinky \<lparr> QGLHE := 1000 \<rparr>)
        \<and> outletTemp (snd (GLHESlinky_calcGroundHeatExchanger firstInstant (startModule, exampleSlinky \<lparr> QGLHE := 1000 \<rparr>)))
       = inletTemp (snd (GLHESlinky_calcGroundHeatExchanger firstInstant (startModule, exampleSlinky \<lparr> QGLHE := 1000 \<rparr>)))"
    unfolding GLHESlinky_calcGroundHeatExchanger_def
    by (rule inactive_generic[OF GLHESlinky_calcGFunctions_keeps(1) GLHESlinky_virtuals_keep(1) GLHESlinky_virtuals_keep(2) t])
  show ?thesis using t v s by simp
qed


lemma int_1_3: "{1..3::int} = {1, 2, 3}"
  by auto

theorem aggregation_conserves_energy_witness:
  "at1 (QnHr (calcAggregateLoad hourModule hourVert)) 1 = SumQnHr hourModule hourVert
   \<and> SumQnHr hourModule hourVert * 1 = 10 * (1 / 4) + 20 * (1 / 4) + 30 * (1 / 2)
   \<and> SumQnHr hourModule hourVert = 45 / 2"
proof -
  have pts: "at1 (prevTimeSteps hourModule) 1 = 1" "at1 (prevTimeSteps hourModule) 2 = 3 / 4"
    "at1 (prevTimeSteps hourModule) 3 = 1 / 2" "at1 (prevTimeSteps hourModule) 4 = 0"
    by (simp_all add: hourModule_def at1_def nth_append)
  have q: "at1 (QnSubHr hourVert) 1 = 10" "at1 (QnSubHr hourVert) 2 = 20" "at1 (QnSubHr hourVert) 3 = 30"
    by (simp_all add: hourVert_def at1_def)
  have M: "3 = N hourModule - at1 (LastHourN hourVert) 1"
    by (simp add: hourModule_def hourVert_def at1_def)
  have mono: "\<forall>J. 1 \<le> J \<and> J \<le> 3 \<longrightarrow> at1 (prevTimeSteps hourModule) (J + 1) < at1 (prevTimeSteps hourModule) J"
  proof (intro allI impI)
    fix J :: int assume "1 \<le> J \<and> J \<le> 3"
    then consider "J = 1" | "J = 2" | "J = 3" by linarith
    then show "at1 (prevTimeSteps hourModule) (J + 1) < at1 (prevTimeSteps hourModule) J"
      by cases (simp_all add: pts)
  qed
  have t: "0 < currentSimTime hourModule" by (simp add: hourModule_def)
  have h: "prevHour hourVert \<noteq> locHourOfDay hourModule" by (simp add: hourModule_def hourVert_def)
  have n: "QnHr hourVert \<noteq> []" by (simp add: hourVert_def exampleVert_def)
  have c: "at1 (QnHr (calcAggregateLoad hourModule hourVert)) 1 = SumQnHr hourModule hourVert
       \<and> SumQnHr hourModule hourVert * \<bar>at1 (prevTimeSteps hourModule) 1 - at1 (prevTimeSteps hourModule) (3 + 1)\<bar>
           = (\<Sum>J = 1..3. at1 (QnSubHr hourVert) J * \<bar>at1 (prevTimeSteps hourModule) J - at1 (prevTimeSteps hourModule) (J + 1)\<bar>)"
    by (rule aggregation_conserves_energy[OF t h n M _ mono]) simp
  have s: "(\<Sum>J = 1..3. at1 (QnSubHr hourVert) J * \<bar>at1 (prevTimeSteps hourModule) J - at1 (prevTimeSteps hourModule) (J + 1)\<bar>)
            = 10 * (1 / 4) + 20 * (1 / 4) + 30 * (1 / 2)"
    unfolding int_1_3 by (simp add: pts q)
  show ?thesis using c s by (simp add: pts)
qed

lemma setClock_fields:
  "prevTimeSteps (setClock ex g) = prevTimeSteps g" "N (setClock ex g) = N g"
  "PrevN (setClock ex g) = PrevN g" "firstTime (setClock ex g) = firstTime g"
  "locHourOfDay (setClock ex g) = toInt (fmod (simTime ex) hrsPerDay + 1)"
  "updateCurSimTime (setClock ex g) = (if DayOfSim ex > 1 then True else updateCurSimTime g)"
  "triggerDesignDayReset (setClock ex g) = (if \<not> WarmupFlag ex then True else triggerDesignDayReset g)"
  by (simp_all add: setClock_def Let_def)

lemma resetHistory_cases:
  "resetHistory ex (g, d) =
    (if DayOfSim ex = 1 \<and> (updateCurSimTime g \<or> (triggerDesignDayReset g \<and> WarmupFlag ex))
     then (g \<lparr> currentSimTime := 0.0, prevTimeSteps := fill (prevTimeSteps g) 0.0, N := 1,
              updateCurSimTime := False, triggerDesignDayReset := False \<rparr>,
           d \<lparr> QnHr := fill (QnHr d) 0.0, QnMonthlyAgg := fill (QnMonthlyAgg d) 0.0,
               QnSubHr := fill (QnSubHr d) 0.0, LastHourN := fill (LastHourN d) 1 \<rparr>)
     else (if triggerDesignDayReset g \<and> WarmupFlag ex then g \<lparr> updateCurSimTime := True \<rparr> else g, d))"
  unfolding resetHistory_def Let_def
  by (cases "DayOfSim ex = 1"; cases "updateCurSimTime g"; cases "triggerDesignDayReset g";
      cases "WarmupFlag ex"; simp)

lemma resetHistory_fields:
  "firstTime (fst (resetHistory ex (g, d))) = firstTime g"
  "PrevN (fst (resetHistory ex (g, d))) = PrevN g"
  "length (prevTimeSteps (fst (resetHistory ex (g, d)))) = length (prevTimeSteps g)"
  unfolding resetHistory_cases by (simp_all add: fill_def)

lemma resetHistory_flags:
  assumes "DayOfSim ex = 1"
  shows "\<not> updateCurSimTime (fst (resetHistory ex (g, d)))"
    and "WarmupFlag ex \<Longrightarrow> \<not> triggerDesignDayReset (fst (resetHistory ex (g, d)))"
  unfolding resetHistory_cases using assms
  by (cases "updateCurSimTime g"; cases "triggerDesignDayReset g"; cases "WarmupFlag ex"; simp)+

lemma resetHistory_idle:
  assumes "if DayOfSim ex = 1
           then \<not> updateCurSimTime g \<and> \<not> (triggerDesignDayReset g \<and> WarmupFlag ex) else True"
  shows "snd (resetHistory ex (g, d)) = d"
    and "prevTimeSteps (fst (resetHistory ex (g, d))) = prevTimeSteps g"
    and "N (fst (resetHistory ex (g, d))) = N g"
    and "PrevN (fst (resetHistory ex (g, d))) = PrevN g"
    and "firstTime (fst (resetHistory ex (g, d))) = firstTime g"
proof -
  have n: "\<not> (DayOfSim ex = 1 \<and> (updateCurSimTime g \<or> (triggerDesignDayReset g \<and> WarmupFlag ex)))"
    using assms by (cases "DayOfSim ex = 1") simp_all
  show "snd (resetHistory ex (g, d)) = d"
    and "prevTimeSteps (fst (resetHistory ex (g, d))) = prevTimeSteps g"
    and "N (fst (resetHistory ex (g, d))) = N g"
    and "PrevN (fst (resetHistory ex (g, d))) = PrevN g"
    and "firstTime (fst (resetHistory ex (g, d))) = firstTime g"
    unfolding resetHistory_cases if_not_P[OF n] by simp_all
qed

lemma pushStep_fields:
  "firstTime (fst (pushStep (g, d))) = firstTime g"
  "PrevN (fst (pushStep (g, d))) = N (fst (pushStep (g, d)))"
  "locHourOfDay (fst (pushStep (g, d))) = locHourOfDay g"
  "updateCurSimTime (fst (pushStep (g, d))) = updateCurSimTime g"
  "triggerDesignDayReset (fst (pushStep (g, d))) = triggerDesignDayReset g"
  "prevTimeSteps g \<noteq> [] \<Longrightarrow> at1 (prevTimeSteps (fst (pushStep (g, d)))) 1 = currentSimTime g"
  by (simp_all add: pushStep_def Let_def eoshift_def at1_def)

lemma pushStep_idle:
  assumes "at1 (prevTimeSteps g) 1 = currentSimTime g" "PrevN g = N g"
  shows "pushStep (g, d) = (g, d)"
  using assms by (simp add: pushStep_def Let_def)

lemma calcAggregateLoad_prevHour:
  "0 < currentSimTime g \<Longrightarrow> prevHour (calcAggregateLoad g d) = locHourOfDay g"
  by (simp add: calcAggregateLoad_def Let_def)

lemma calcAggregateLoad_idle:
  "prevHour d = locHourOfDay g \<Longrightarrow> calcAggregateLoad g d = d"
  by (simp add: calcAggregateLoad_def Let_def)

lemma deviceHistory_outputs:
  "deviceHistory (d \<lparr> boreholeTemp := b, lastQnSubHr := c, outletTemp := e, QGLHE := f,
      aveFluidTemp := h \<rparr>) = deviceHistory d"
  "deviceHistory (d \<lparr> inletTemp := i \<rparr>) = deviceHistory d"
  "deviceHistory (d \<lparr> massFlowRate := m \<rparr>) = deviceHistory d"
  by (simp_all add: deviceHistory_def)

lemma settled_call_keeps_history:
  assumes gatc: "\<And>d. deviceHistory (gatc d) = deviceHistory d"
    and hxr: "\<And>d. deviceHistory (hxr ex d) = deviceHistory d"
    and time: "0 < simTime ex"
    and s: "settled ex g d"
  shows "history (fst (calcGroundHeatExchanger cgf gatc hxr ex (g, d)))
                 (snd (calcGroundHeatExchanger cgf gatc hxr ex (g, d))) = history g d"
proof -
  from s have ft: "\<not> firstTime g" and top: "at1 (prevTimeSteps g) 1 = simTime ex"
    and pn: "PrevN g = N g" and ph: "prevHour d = toInt (fmod (simTime ex) hrsPerDay + 1)"
    and fl: "if DayOfSim ex = 1
         then \<not> updateCurSimTime g \<and> \<not> (triggerDesignDayReset g \<and> WarmupFlag ex) else True"
    by (simp_all add: settled_def)
  define d3 where "d3 = gatc (d \<lparr> inletTemp := NodeTemp g (inletNodeNum d) \<rparr>)"
  define cp where "cp = cpGlycol ex (NodeTemp g (inletNodeNum d))"
  define g1 where "g1 = g \<lparr> firstTime := False \<rparr>"
  define r where "r = resetHistory ex (g1, d3)"
  define g5 where "g5 = setClock ex (fst r)"
  define d8 where "d8 = hxr ex d3"
  define q where "q = respond g5 d8 cp"
  define g9 where "g9 = g5 \<lparr> ToutNew := snd (snd q) \<rparr>"
  have fl1: "if DayOfSim ex = 1
         then \<not> updateCurSimTime g1 \<and> \<not> (triggerDesignDayReset g1 \<and> WarmupFlag ex) else True"
    using fl by (simp add: g1_def)
  note idle = resetHistory_idle[OF fl1, of d3, folded r_def]
  have h3: "deviceHistory d3 = deviceHistory d"
    by (simp add: d3_def gatc deviceHistory_outputs)
  have p5: "prevTimeSteps g5 = prevTimeSteps g" "N g5 = N g" "PrevN g5 = PrevN g"
    "currentSimTime g5 = simTime ex" "locHourOfDay g5 = toInt (fmod (simTime ex) hrsPerDay + 1)"
    by (simp_all add: g5_def setClock_fields currentSimTime_setClock idle g1_def)
  have push: "pushStep (g5, snd r) = (g5, d3)"
    using pushStep_idle[of g5 "snd r"] p5 top pn idle(1) by simp
  have "prevHour d3 = prevHour d" using h3 by (simp add: deviceHistory_def)
  then have agg: "calcAggregateLoad g5 d3 = d3"
    using calcAggregateLoad_idle[of d3 g5] ph p5 by simp
  have res: "calcGroundHeatExchanger cgf gatc hxr ex (g, d) =
      (g9, d8 \<lparr> boreholeTemp := tempGround d8 - sumTotal g9 d8, lastQnSubHr := fst q,
                  outletTemp := snd (snd q), QGLHE := fst q * totalTubeLength d8,
                  aveFluidTemp := fst (snd q) \<rparr>)"
    unfolding calc_active[OF time] Let_def using ft
    by (simp add: d3_def[symmetric] cp_def[symmetric] g1_def[symmetric] r_def[symmetric]
        g5_def[symmetric] push agg d8_def[symmetric] q_def[symmetric] g9_def[symmetric])
  have h8: "deviceHistory d8 = deviceHistory d" by (simp add: d8_def hxr h3)
  show ?thesis unfolding res by (simp add: history_def deviceHistory_outputs h8 g9_def p5)
qed

lemma first_call_settles:
  assumes hxr: "\<And>d. prevHour (hxr ex d) = prevHour d"
    and time: "0 < simTime ex"
    and ne: "prevTimeSteps g \<noteq> []"
  shows "settled ex (fst (calcGroundHeatExchanger cgf gatc hxr ex (g, d)))
                    (snd (calcGroundHeatExchanger cgf gatc hxr ex (g, d)))"
proof -
  define d3 where "d3 = gatc ((if firstTime g then cgf d else d) \<lparr> inletTemp := NodeTemp g (inletNodeNum (if firstTime g then cgf d else d)) \<rparr>)"
  define cp where "cp = cpGlycol ex (NodeTemp g (inletNodeNum (if firstTime g then cgf d else d)))"
  define g1 where "g1 = g \<lparr> firstTime := False \<rparr>"
  define r where "r = resetHistory ex (g1, d3)"
  define g5 where "g5 = setClock ex (fst r)"
  define p where "p = pushStep (g5, snd r)"
  define d8 where "d8 = hxr ex (calcAggregateLoad (fst p) (snd p))"
  define q where "q = respond (fst p) d8 cp"
  define g9 where "g9 = (fst p) \<lparr> ToutNew := snd (snd q) \<rparr>"
  have res: "calcGroundHeatExchanger cgf gatc hxr ex (g, d) =
      (g9, d8 \<lparr> boreholeTemp := tempGround d8 - sumTotal g9 d8, lastQnSubHr := fst q,
                  outletTemp := snd (snd q), QGLHE := fst q * totalTubeLength d8,
                  aveFluidTemp := fst (snd q) \<rparr>)"
    unfolding calc_active[OF time] Let_def d3_def cp_def g1_def r_def g5_def p_def d8_def q_def g9_def ..
  have f: "\<not> firstTime (fst p)"
    unfolding p_def g5_def r_def g1_def by (simp add: pushStep_fields setClock_fields resetHistory_fields)
  have ne5: "prevTimeSteps g5 \<noteq> []"
  proof -
    have "length (prevTimeSteps g5) = length (prevTimeSteps g)"
      unfolding g5_def r_def g1_def by (simp add: setClock_fields resetHistory_fields)
    then show ?thesis using ne by auto
  qed
  have t5: "currentSimTime g5 = simTime ex" by (simp add: g5_def currentSimTime_setClock)
  have top: "at1 (prevTimeSteps (fst p)) 1 = simTime ex"
    unfolding p_def using pushStep_fields(6)[OF ne5] t5 by simp
  have pn: "PrevN (fst p) = N (fst p)" unfolding p_def by (rule pushStep_fields(2))
  have tp: "currentSimTime (fst p) = simTime ex"
    unfolding p_def by (simp add: currentSimTime_pushStep t5)
  have lh: "locHourOfDay (fst p) = toInt (fmod (simTime ex) hrsPerDay + 1)"
    unfolding p_def g5_def by (simp add: pushStep_fields setClock_fields)
  have ph: "prevHour d8 = toInt (fmod (simTime ex) hrsPerDay + 1)"
    unfolding d8_def hxr using calcAggregateLoad_prevHour[of "fst p" "snd p"] tp time lh by simp
  have flags: "if DayOfSim ex = 1
         then \<not> updateCurSimTime (fst p) \<and> \<not> (triggerDesignDayReset (fst p) \<and> WarmupFlag ex)
         else True"
  proof (cases "DayOfSim ex = 1")
    case True
    have u: "\<not> updateCurSimTime (fst r)" unfolding r_def by (rule resetHistory_flags(1)[OF True])
    have "updateCurSimTime (fst p) = updateCurSimTime (fst r)"
      unfolding p_def g5_def using True by (simp add: pushStep_fields setClock_fields)
    moreover have "WarmupFlag ex \<Longrightarrow> \<not> triggerDesignDayReset (fst p)"
    proof -
      assume w: "WarmupFlag ex"
      have "\<not> triggerDesignDayReset (fst r)" unfolding r_def by (rule resetHistory_flags(2)[OF True w])
      then show ?thesis unfolding p_def g5_def using w by (simp add: pushStep_fields setClock_fields)
    qed
    ultimately show ?thesis using True u by auto
  next
    case False
    then show ?thesis by simp
  qed
  show ?thesis
    unfolding res using f top pn ph flags
    by (simp add: settled_def g9_def)
qed

lemma settled_clock:
  assumes "simTime ex' = simTime ex" "DayOfSim ex' = DayOfSim ex" "WarmupFlag ex' = WarmupFlag ex"
  shows "settled ex' g d = settled ex g d"
  using assms by (simp add: settled_def)

lemma settled_inputs:
  "settled ex (g \<lparr> NodeTemp := T \<rparr>) (d \<lparr> massFlowRate := m \<rparr>) = settled ex g d"
  by (simp add: settled_def)

lemma history_inputs:
  "history (g \<lparr> NodeTemp := T \<rparr>) (d \<lparr> massFlowRate := m \<rparr>) = history g d"
  by (simp add: history_def deviceHistory_def)

lemma GLHEVert_virtuals_history:
  "deviceHistory (GLHEVert_getAnnualTimeConstant d) = deviceHistory d"
  "deviceHistory (GLHEVert_calcHXResistance ex d) = deviceHistory d"
  "prevHour (GLHEVert_calcHXResistance ex d) = prevHour d"
  by (simp_all add: deviceHistory_def GLHEVert_getAnnualTimeConstant_def Let_def
        GLHEVert_calcHXResistance_def split_def)

lemma GLHESlinky_virtuals_history:
  "deviceHistory (GLHESlinky_getAnnualTimeConstant d) = deviceHistory d"
  "deviceHistory (GLHESlinky_calcHXResistance ex d) = deviceHistory d"
  "prevHour (GLHESlinky_calcHXResistance ex d) = prevHour d"
  by (simp_all add: deviceHistory_def GLHESlinky_getAnnualTimeConstant_def Let_def
        GLHESlinky_calcHXResistance_def)

lemma repeated_call_generic:
  assumes gatc: "\<And>d. deviceHistory (gatc d) = deviceHistory d"
    and hxr: "\<And>ex d. deviceHistory (hxr ex d) = deviceHistory d"
    and hxr': "\<And>ex d. prevHour (hxr ex d) = prevHour d"
    and time: "0 < simTime ex"
    and clock: "simTime ex' = simTime ex" "DayOfSim ex' = DayOfSim ex" "WarmupFlag ex' = WarmupFlag ex"
    and ne: "prevTimeSteps g \<noteq> []"
    and first: "calcGroundHeatExchanger cgf gatc hxr ex (g, d) = (g1, d1)"
    and second: "calcGroundHeatExchanger cgf gatc hxr ex' (g1 \<lparr> NodeTemp := T \<rparr>, d1 \<lparr> massFlowRate := m \<rparr>) = (g2, d2)"
  shows "history g2 d2 = history g1 d1"
proof -
  have "settled ex g1 d1"
    using first_call_settles[where hxr=hxr and ex=ex and cgf=cgf and gatc=gatc and d=d, OF hxr' time ne] first by simp
  then have s: "settled ex' (g1 \<lparr> NodeTemp := T \<rparr>) (d1 \<lparr> massFlowRate := m \<rparr>)"
    by (simp add: settled_inputs settled_clock[OF clock])
  have time': "0 < simTime ex'" using time clock by simp
  have "history g2 d2 = history (g1 \<lparr> NodeTemp := T \<rparr>) (d1 \<lparr> massFlowRate := m \<rparr>)"
    using settled_call_keeps_history[where hxr=hxr and ex=ex' and gatc=gatc and cgf=cgf, OF gatc hxr time' s] second by simp
  then show ?thesis by (simp add: history_inputs)
qed

text \<open>
  Claim C7. After a call of \<^verbatim>\<open>calcGroundHeatExchanger\<close> at a positive time, a second call
  at the same reading of the clock (the same elapsed time, day and warmup flag), possibly
  with another inlet temperature and another flow, leaves \<^verbatim>\<open>prevTimeSteps\<close>, \<^verbatim>\<open>N\<close>,
  \<^verbatim>\<open>QnSubHr\<close>, \<^verbatim>\<open>QnHr\<close>, \<^verbatim>\<open>QnMonthlyAgg\<close>, \<^verbatim>\<open>LastHourN\<close> and \<^verbatim>\<open>prevHour\<close> as the first call
  left them. This holds for the vertical and for the slinky heat exchanger.
\<close>

theorem repeated_call_keeps_history:
  assumes "0 < simTime ex"
    and "simTime ex' = simTime ex" and "DayOfSim ex' = DayOfSim ex" and "WarmupFlag ex' = WarmupFlag ex"
    and "prevTimeSteps g \<noteq> []"
  shows "(case GLHEVert_calcGroundHeatExchanger ex (g, dV) of (g1, d1) \<Rightarrow>
           (case GLHEVert_calcGroundHeatExchanger ex' (g1 \<lparr> NodeTemp := T \<rparr>, d1 \<lparr> massFlowRate := m \<rparr>) of
              (g2, d2) \<Rightarrow> history g2 d2 = history g1 d1))
       \<and> (case GLHESlinky_calcGroundHeatExchanger ex (g, dS) of (g1, d1) \<Rightarrow>
           (case GLHESlinky_calcGroundHeatExchanger ex' (g1 \<lparr> NodeTemp := T \<rparr>, d1 \<lparr> massFlowRate := m \<rparr>) of
              (g2, d2) \<Rightarrow> history g2 d2 = history g1 d1))"
proof -
  obtain gv1 dv1 where v1: "GLHEVert_calcGroundHeatExchanger ex (g, dV) = (gv1, dv1)"
    by (cases "GLHEVert_calcGroundHeatExchanger ex (g, dV)")
  obtain gv2 dv2 where v2: "GLHEVert_calcGroundHeatExchanger ex' (gv1 \<lparr> NodeTemp := T \<rparr>, dv1 \<lparr> massFlowRate := m \<rparr>) = (gv2, dv2)"
    by (cases "GLHEVert_calcGroundHeatExchanger ex' (gv1 \<lparr> NodeTemp := T \<rparr>, dv1 \<lparr> massFlowRate := m \<rparr>)")
  obtain gs1 ds1 where s1: "GLHESlinky_calcGroundHeatExchanger ex (g, dS) = (gs1, ds1)"
    by (cases "GLHESlinky_calcGroundHeatExchanger ex (g, dS)")
  obtain gs2 ds2 where s2: "GLHESlinky_calcGroundHeatExchanger ex' (gs1 \<lparr> NodeTemp := T \<rparr>, ds1 \<lparr> massFlowRate := m \<rparr>) = (gs2, ds2)"
    by (cases "GLHESlinky_calcGroundHeatExchanger ex' (gs1 \<lparr> NodeTemp := T \<rparr>, ds1 \<lparr> massFlowRate := m \<rparr>)")
  have a: "history gv2 dv2 = history gv1 dv1"
    by (rule repeated_call_generic[OF GLHEVert_virtuals_history(1) GLHEVert_virtuals_history(2)
          GLHEVert_virtuals_history(3) assms
          v1[unfolded GLHEVert_calcGroundHeatExchanger_def]
          v2[unfolded GLHEVert_calcGroundHeatExchanger_def]])
  have b: "history gs2 ds2 = history gs1 ds1"
    by (rule repeated_call_generic[OF GLHESlinky_virtuals_history(1) GLHESlinky_virtuals_history(2)
          GLHESlinky_virtuals_history(3) assms
          s1[unfolded GLHESlinky_calcGroundHeatExchanger_def]
          s2[unfolded GLHESlinky_calcGroundHeatExchanger_def]])
  show ?thesis unfolding v1 s1 using a b by (simp add: v2 s2)
qed

theorem repeated_call_keeps_history_witness:
  "0 < simTime secondStep \<and> prevTimeSteps startModule \<noteq> []
   \<and> history
        (fst (GLHEVert_calcGroundHeatExchanger secondStep
               ((fst (GLHEVert_calcGroundHeatExchanger secondStep (startModule, exampleVert))) \<lparr> NodeTemp := (\<lambda>i. 25) \<rparr>,
                (snd (GLHEVert_calcGroundHeatExchanger secondStep (startModule, exampleVert))) \<lparr> massFlowRate := 0.2 \<rparr>)))
        (snd (GLHEVert_calcGroundHeatExchanger secondStep
               ((fst (GLHEVert_calcGroundHeatExchanger secondStep (startModule, exampleVert))) \<lparr> NodeTemp := (\<lambda>i. 25) \<rparr>,
                (snd (GLHEVert_calcGroundHeatExchanger secondStep (startModule, exampleVert))) \<lparr> massFlowRate := 0.2 \<rparr>)))
      = history (fst (GLHEVert_calcGroundHeatExchanger secondStep (startModule, exampleVert)))
                (snd (GLHEVert_calcGroundHeatExchanger secondStep (startModule, exampleVert)))"
proof -
  have t: "0 < simTime secondStep" by (simp add: simTime_secondStep)
  have ne: "prevTimeSteps startModule \<noteq> []" by (simp add: startModule_def)
  show ?thesis
    using repeated_call_keeps_history[OF t refl refl refl ne, where dV=exampleVert and T="\<lambda>i. 25"
          and m="0.2" and dS=exampleSlinky]
      t ne
    by (simp add: split_def)
qed

lemma forLoop_counted:
  "P I s \<Longrightarrow> (\<And>J s. I \<le> J \<Longrightarrow> J \<le> limit \<Longrightarrow> P J s \<Longrightarrow> P (J + 1) (body J s))
     \<Longrightarrow> P (if I \<le> limit then limit + 1 else I) (forLoop I limit body s)"
proof (induction I limit body s rule: forLoop.induct)
  case (1 I limit body s)
  show ?case
  proof (cases "I \<le> limit")
    case True
    have a: "P (I + 1) (body I s)" using "1.prems" True by simp
    have "P (if I + 1 \<le> limit then limit + 1 else I + 1) (forLoop (I + 1) limit body (body I s))"
      by (rule "1.IH"[OF True a]) (use "1.prems"(2) in simp)
    moreover have "(if I + 1 \<le> limit then limit + 1 else I + 1) = limit + 1" using True by simp
    ultimately show ?thesis using True by (subst forLoop.simps) simp
  next
    case False
    then show ?thesis using "1.prems"(1) by (subst forLoop.simps) simp
  qed
qed

lemma at1_put1_same: "1 \<le> i \<Longrightarrow> nat (i - 1) < length A \<Longrightarrow> at1 (put1 A i v) i = v"
  by (simp add: at1_def put1_def)

lemma at1_put1_other: "1 \<le> j \<Longrightarrow> j \<noteq> i \<Longrightarrow> at1 (put1 A i v) j = at1 A j"
  by (simp add: at1_def put1_def)

lemma length_put1: "length (put1 A i v) = length A"
  by (simp add: put1_def)

text \<open>The table after the loop over the log-time grid.\<close>

lemma grid_loop:
  fixes f :: "int \<Rightarrow> real"
  assumes len: "length (LNTTS d) = nat n" and np: "NPairs d = n"
  shows "let d' = forLoop 1 n (\<lambda>NT d. d \<lparr> GFNC := put1 (GFNC d) NT (G NT d), LNTTS := put1 (LNTTS d) NT (f NT) \<rparr>) d
         in NPairs d' = n \<and> length (LNTTS d') = nat n
            \<and> (\<forall>NT. 1 \<le> NT \<and> NT \<le> n \<longrightarrow> at1 (LNTTS d') NT = f NT)"
proof -
  define P where "P = (\<lambda>J (s :: 'a GLHEBase_scheme). NPairs s = n \<and> length (LNTTS s) = nat n
      \<and> (\<forall>NT. 1 \<le> NT \<and> NT < J \<longrightarrow> at1 (LNTTS s) NT = f NT))"
  have start: "P 1 d" using len np by (simp add: P_def)
  have step: "P (J + 1) (s \<lparr> GFNC := put1 (GFNC s) J (G J s), LNTTS := put1 (LNTTS s) J (f J) \<rparr>)"
    if "1 \<le> J" "J \<le> n" "P J s" for J s
  proof -
    from that have l: "length (LNTTS s) = nat n" and old: "\<forall>NT. 1 \<le> NT \<and> NT < J \<longrightarrow> at1 (LNTTS s) NT = f NT"
      and npp: "NPairs s = n"
      by (simp_all add: P_def)
    have inr: "nat (J - 1) < length (LNTTS s)" using that(1,2) l by simp
    have "at1 (put1 (LNTTS s) J (f J)) NT = f NT" if h: "1 \<le> NT" "NT < J + 1" for NT
    proof (cases "NT = J")
      case True
      then show ?thesis using at1_put1_same[OF \<open>1 \<le> J\<close> inr] by simp
    next
      case False
      then have "NT < J" using h by simp
      then have "at1 (LNTTS s) NT = f NT" using old h(1) by blast
      then show ?thesis using at1_put1_other[OF h(1) False, of "LNTTS s" "f J"] by simp
    qed
    then show ?thesis using l npp by (simp add: P_def length_put1)
  qed
  have "P (if 1 \<le> n then n + 1 else 1)
          (forLoop 1 n (\<lambda>NT d. d \<lparr> GFNC := put1 (GFNC d) NT (G NT d), LNTTS := put1 (LNTTS d) NT (f NT) \<rparr>) d)"
    by (rule forLoop_counted[where P=P, OF start]) (rule step)
  then show ?thesis unfolding Let_def P_def by (cases "1 \<le> n") auto
qed

lemma allocate_length: "length (allocate n) = nat n"
  by (simp add: allocate_def)

text \<open>
  Claim C10. \<^verbatim>\<open>GLHESlinky::calcGFunctions\<close> converts the maximum number of simulated years
  to seconds with a year of 356 days: the table has
  \<^verbatim>\<open>NPairs = int( ( log10( maxSimYears * 356 * 24 * 60 * 60 / 3600 ) - ( -2 ) ) / 0.25 + 1 )\<close>
  pairs, and its log-time axis runs from -2 in steps of 0.25.
\<close>

theorem slinky_grid_uses_356_day_year:
  "convertYearsToSeconds = 356 * 24 * 60 * 60
   \<and> convertYearsToSeconds \<noteq> 365 * 24 * 60 * 60
   \<and> NPairs (GLHESlinky_calcGFunctions d)
        = toInt ((log 10 (maxSimYears d * (356 * 24 * 60 * 60) / 3600) - (- 2)) / 0.25 + 1)
   \<and> length (LNTTS (GLHESlinky_calcGFunctions d)) = nat (NPairs (GLHESlinky_calcGFunctions d))
   \<and> (\<forall>NT. 1 \<le> NT \<and> NT \<le> NPairs (GLHESlinky_calcGFunctions d)
          \<longrightarrow> at1 (LNTTS (GLHESlinky_calcGFunctions d)) NT = - 2 + 0.25 * of_int (NT - 1))"
proof -
  define n where "n = toInt ((log 10 (maxSimYears d * (356 * 24 * 60 * 60) / 3600) - (- 2)) / 0.25 + 1)"
  define d1 where "d1 = d \<lparr> X0 := allocate (numCoils d), Y0 := allocate (numTrenches d) \<rparr>"
  define d2 where "d2 = d1 \<lparr> NPairs := toInt ((tLg_max d1 - tLg_min) / tLg_grid + 1) \<rparr>"
  define d3 where "d3 = d2 \<lparr> GFNC := allocate (NPairs d2), LNTTS := allocate (NPairs d2),
                 QnMonthlyAgg := allocate (toInt (maxSimYears d2 * 12)),
                 QnHr := allocate (toInt (730 + 192.0 + 15.0)),
                 QnSubHr := allocate (toInt ((15.0 + 1) * of_int maxTSinHr + 1)),
                 LastHourN := allocate (toInt (15.0 + 1)) \<rparr>"
  define d4 where "d4 = forLoop 1 (NPairs d3)
               (\<lambda>i d. d \<lparr> GFNC := put1 (GFNC d) i 0.0, LNTTS := put1 (LNTTS d) i 0.0 \<rparr>) d3"
  define d5 where "d5 = forLoop 1 (numCoils d4)
               (\<lambda>coil d. d \<lparr> X0 := put1 (X0 d) coil (coilPitch d * of_int (coil - 1)) \<rparr>) d4"
  define d6 where "d6 = forLoop 1 (numTrenches d5)
               (\<lambda>trench d. d \<lparr> Y0 := put1 (Y0 d) trench (of_int (trench - 1) * trenchSpacing d) \<rparr>) d5"
  define d7 where "d7 = d6 \<lparr> Z0 := coilDepth d6 \<rparr>"
  define numLC where "numLC = \<lceil>of_int (numCoils d4) / (2.0::real)\<rceil>"
  define numRC where "numRC = \<lceil>of_int (numTrenches d4) / (2.0::real)\<rceil>"
  define G where "G = (\<lambda>NT (s :: 'a GLHESlinky_scheme).
       (fieldResponse s ((10 powr (tLg_min + tLg_grid * of_int (NT - 1))) * ts) numRC numLC * (coilDiameter s / 2.0))
          / (4 * pi * (if numTrenches d7 > 1 then 0.25 else 0.5) * of_int (numTrenches s) * of_int (numCoils s)))"
  define d8 where "d8 = forLoop 1 (NPairs d7)
               (\<lambda>NT s. s \<lparr> GFNC := put1 (GFNC s) NT (G NT s),
                           LNTTS := put1 (LNTTS s) NT (tLg_min + tLg_grid * of_int (NT - 1)) \<rparr>) d7"
  have r: "GLHESlinky_calcGFunctions d = d8 \<lparr> gFuncCalls := gFuncCalls d8 + 1 \<rparr>"
    unfolding GLHESlinky_calcGFunctions_def Let_def d8_def G_def d7_def d6_def d5_def d4_def d3_def d2_def d1_def
      numLC_def numRC_def ..
  define P where "P = (\<lambda>s :: 'a GLHESlinky_scheme. NPairs s = n \<and> length (LNTTS s) = nat n)"
  have n2: "NPairs d2 = n"
    by (simp add: d2_def d1_def n_def tLg_max_def convertYearsToSeconds_def ts_def tLg_min_def tLg_grid_def)
  have p3: "P d3" using n2 by (simp add: P_def d3_def allocate_length)
  have p4: "P d4" unfolding d4_def
    by (rule forLoop_invariant[where P=P]) (simp_all add: p3, simp add: P_def length_put1)
  have p5: "P d5" unfolding d5_def
    by (rule forLoop_invariant[where P=P]) (simp_all add: p4, simp add: P_def)
  have p6: "P d6" unfolding d6_def
    by (rule forLoop_invariant[where P=P]) (simp_all add: p5, simp add: P_def)
  have p7: "P d7" using p6 by (simp add: P_def d7_def)
  then have l7: "length (LNTTS d7) = nat n" and n7: "NPairs d7 = n" by (simp_all add: P_def)
  have g: "NPairs d8 = n \<and> length (LNTTS d8) = nat n
            \<and> (\<forall>NT. 1 \<le> NT \<and> NT \<le> n \<longrightarrow> at1 (LNTTS d8) NT = tLg_min + tLg_grid * of_int (NT - 1))"
    using grid_loop[OF l7 n7, where G=G and f="\<lambda>NT. tLg_min + tLg_grid * of_int (NT - 1)"]
    unfolding d8_def n7 Let_def by simp
  have c: "convertYearsToSeconds \<noteq> 365 * 24 * 60 * 60" by (simp add: convertYearsToSeconds_def)
  show ?thesis
    unfolding r n_def[symmetric] using g c
    by (simp add: convertYearsToSeconds_def tLg_min_def tLg_grid_def)
qed

lemma log10_8544: "15 / 4 \<le> log 10 (8544::real)" "log 10 (8544::real) < 4"
proof -
  have "(10::real) powr (15 / 4) \<le> 8544"
  proof -
    have "((10::real) powr (15 / 4)) ^ 4 = 10 powr (15 / 4 * 4)"
      by (simp add: powr_powr flip: powr_realpow)
    also have "\<dots> = 10 ^ 15" by (simp flip: powr_realpow)
    also have "\<dots> \<le> (8544::real) ^ 4" by simp
    finally have le: "((10::real) powr (15 / 4)) ^ 4 \<le> (8544::real) ^ 4" .
    show ?thesis
    proof (rule ccontr)
      assume "\<not> (10::real) powr (15 / 4) \<le> 8544"
      then have "(8544::real) < 10 powr (15 / 4)" by simp
      then have "(8544::real) ^ 4 < (10 powr (15 / 4)) ^ 4"
        by (intro power_strict_mono) simp_all
      then show False using le by simp
    qed
  qed
  then show "15 / 4 \<le> log 10 (8544::real)"
    using le_log_iff[of 10 8544 "15 / 4"] by simp
  have "(8544::real) < 10 powr 4" by simp
  then show "log 10 (8544::real) < 4"
    using log_less_iff[of 10 8544 4] by simp
qed

theorem slinky_grid_uses_356_day_year_witness:
  "NPairs (GLHESlinky_calcGFunctions exampleSlinky) = 24
   \<and> length (LNTTS (GLHESlinky_calcGFunctions exampleSlinky)) = 24
   \<and> at1 (LNTTS (GLHESlinky_calcGFunctions exampleSlinky)) 1 = - 2
   \<and> at1 (LNTTS (GLHESlinky_calcGFunctions exampleSlinky)) 24 = 15 / 4"
proof -
  have m: "maxSimYears exampleSlinky = 1" by (simp add: exampleSlinky_def)
  have a: "(maxSimYears exampleSlinky * (356 * 24 * 60 * 60) / 3600) = 8544" using m by simp
  have "\<lfloor>(log 10 (8544::real) - (- 2)) / 0.25 + 1\<rfloor> = 24"
    using log10_8544 by (simp add: floor_eq_iff)
  then have n: "toInt ((log 10 (maxSimYears exampleSlinky * (356 * 24 * 60 * 60) / 3600) - (- 2)) / 0.25 + 1) = 24"
    unfolding a toInt_def using log10_8544 by simp
  note th = slinky_grid_uses_356_day_year[of exampleSlinky, unfolded n]
  have np: "NPairs (GLHESlinky_calcGFunctions exampleSlinky) = 24" using th by simp
  have len: "length (LNTTS (GLHESlinky_calcGFunctions exampleSlinky)) = 24" using th np by simp
  have all: "\<forall>NT. 1 \<le> NT \<and> NT \<le> 24
          \<longrightarrow> at1 (LNTTS (GLHESlinky_calcGFunctions exampleSlinky)) NT = - 2 + 0.25 * of_int (NT - 1)"
    using th np by simp
  have "at1 (LNTTS (GLHESlinky_calcGFunctions exampleSlinky)) 1 = - 2" using all[rule_format, of 1] by simp
  moreover have "at1 (LNTTS (GLHESlinky_calcGFunctions exampleSlinky)) 24 = 15 / 4"
    using all[rule_format, of 24] by simp
  ultimately show ?thesis using np len by simp
qed

lemma erfc_series: "erfc x = 1 - (2 / sqrt pi) * (\<Sum>k. (- 1) ^ k * erfTerm x k)"
  by (simp add: erfc_def erfTerm_def)

lemma erfTerm_nonneg: "0 \<le> x \<Longrightarrow> 0 \<le> erfTerm x k"
  by (simp add: erfTerm_def)

lemma erfTerm_decreasing:
  assumes "0 \<le> x" "x \<le> 1"
  shows "erfTerm x (Suc k) \<le> erfTerm x k"
proof -
  have p: "x ^ (2 * Suc k + 1) \<le> x ^ (2 * k + 1)"
    using assms by (intro power_decreasing) simp_all
  have q: "(fact k * of_nat (2 * k + 1) :: real) \<le> fact (Suc k) * of_nat (2 * Suc k + 1)"
    by (intro mult_mono) (simp_all add: fact_mono)
  have "x ^ (2 * Suc k + 1) / (fact (Suc k) * of_nat (2 * Suc k + 1))
          \<le> x ^ (2 * k + 1) / (fact k * of_nat (2 * k + 1))"
    by (rule frac_le[OF _ p _ q]) (use assms in simp_all)
  then show ?thesis by (simp only: erfTerm_def)
qed

lemma erfTerm_bound:
  assumes "0 \<le> x" "x \<le> 1"
  shows "erfTerm x k \<le> inverse (real (Suc k))"
proof -
  have p: "x ^ (2 * k + 1) \<le> 1" using assms by (intro power_le_one) simp_all
  have q: "real (Suc k) \<le> fact k * of_nat (2 * k + 1)"
  proof -
    have "real (Suc k) \<le> 1 * real (2 * k + 1)" by simp
    also have "\<dots> \<le> fact k * real (2 * k + 1)" by (intro mult_right_mono) simp_all
    finally show ?thesis by simp
  qed
  have "x ^ (2 * k + 1) / (fact k * of_nat (2 * k + 1)) \<le> 1 / real (Suc k)"
    by (rule frac_le[OF _ p _ q]) simp_all
  then show ?thesis by (simp add: erfTerm_def inverse_eq_divide)
qed

lemma erfTerm_tendsto:
  assumes "0 \<le> x" "x \<le> 1"
  shows "erfTerm x \<longlonglongrightarrow> 0"
proof (rule tendsto_sandwich[OF _ _ tendsto_const LIMSEQ_inverse_real_of_nat])
  show "\<forall>\<^sub>F k in sequentially. 0 \<le> erfTerm x k"
    using erfTerm_nonneg[OF assms(1)] by simp
  show "\<forall>\<^sub>F k in sequentially. erfTerm x k \<le> inverse (real (Suc k))"
    using erfTerm_bound[OF assms] by simp
qed

lemma erf_series_bounds:
  assumes "0 \<le> x" "x \<le> 1"
  shows "x - x ^ 3 / 3 \<le> (\<Sum>k. (- 1) ^ k * erfTerm x k)"
    and "(\<Sum>k. (- 1) ^ k * erfTerm x k) \<le> x"
proof -
  note L = summable_Leibniz'[OF erfTerm_tendsto[OF assms] erfTerm_nonneg[OF assms(1)]
      erfTerm_decreasing[OF assms]]
  have lo: "(\<Sum>i<2 * 1. (- 1) ^ i * erfTerm x i) \<le> (\<Sum>k. (- 1) ^ k * erfTerm x k)"
    by (rule L(2))
  have hi: "(\<Sum>k. (- 1) ^ k * erfTerm x k) \<le> (\<Sum>i<2 * 0 + 1. (- 1) ^ i * erfTerm x i)"
    by (rule L(4))
  have two: "{..<2::nat} = {0, 1}" by auto
  have t0: "erfTerm x 0 = x" by (simp add: erfTerm_def)
  have t1: "erfTerm x (Suc 0) = x ^ 3 / 3" by (simp add: erfTerm_def power3_eq_cube power2_eq_square)
  have s2: "(\<Sum>i<2 * 1. (- 1) ^ i * erfTerm x i) = x - x ^ 3 / 3"
    by (simp add: two t0 t1)
  have s1: "(\<Sum>i<2 * 0 + 1. (- 1) ^ i * erfTerm x i) = x"
    by (simp add: t0)
  show "x - x ^ 3 / 3 \<le> (\<Sum>k. (- 1) ^ k * erfTerm x k)"
    using lo unfolding s2 .
  show "(\<Sum>k. (- 1) ^ k * erfTerm x k) \<le> x"
    using hi unfolding s1 .
qed

lemma sqrt_pi_bounds: "7 / 5 < sqrt pi"
proof -
  have "((7 / 5) ^ 2 :: real) < pi" using pi_ge_two by (simp add: power2_eq_square)
  then have "sqrt ((7 / 5) ^ 2) < sqrt pi" by (simp only: real_sqrt_less_iff)
  then show ?thesis by simp
qed

lemma erfc_le_one:
  assumes "0 \<le> x" "x \<le> 1"
  shows "erfc x \<le> 1"
proof -
  have "x ^ 3 \<le> x ^ 1" using assms by (intro power_decreasing) simp_all
  then have "0 \<le> x - x ^ 3 / 3" using assms(1) by simp
  then have "0 \<le> (\<Sum>k. (- 1) ^ k * erfTerm x k)" using erf_series_bounds(1)[OF assms] by simp
  then have "0 \<le> (2 / sqrt pi) * (\<Sum>k. (- 1) ^ k * erfTerm x k)" by simp
  then show ?thesis unfolding erfc_series by simp
qed

lemma erfc_half_lower: "2 / 7 < erfc (1 / 2)"
proof -
  have s: "(\<Sum>k. (- 1) ^ k * erfTerm (1 / 2) k) \<le> 1 / 2"
    using erf_series_bounds(2)[of "1 / 2"] by simp
  have p: "0 < 2 / sqrt pi" by simp
  have "(2 / sqrt pi) * (\<Sum>k. (- 1) ^ k * erfTerm (1 / 2) k) \<le> (2 / sqrt pi) * (1 / 2)"
    by (rule mult_left_mono[OF s]) simp
  also have "\<dots> = 1 / sqrt pi" by simp
  also have "\<dots> < 5 / 7"
  proof -
    have "1 / sqrt pi < 1 / (7 / 5)"
      by (rule divide_strict_left_mono[OF sqrt_pi_bounds]) simp_all
    then show ?thesis by simp
  qed
  finally show ?thesis unfolding erfc_series by simp
qed

lemma sqrt_36: "sqrt 36 = 6" and sqrt_144: "sqrt 144 = 12" and sqrt_169_4: "sqrt (169 / 4) = 13 / 2"
proof -
  have "sqrt ((6::real)\<^sup>2) = 6" by simp
  then show "sqrt 36 = 6" by simp
  have "sqrt ((12::real)\<^sup>2) = 12" by simp
  then show "sqrt 144 = 12" by simp
  have "sqrt (((13::real) / 2)\<^sup>2) = 13 / 2" by (simp del: power_divide)
  then show "sqrt (169 / 4) = 13 / 2" by (simp add: power2_eq_square)
qed

subsection \<open>The guard of the g-function calculation\<close>

lemma firstTime_resetHistory: "firstTime (fst (resetHistory ex (g, d))) = firstTime g"
  unfolding resetHistory_def Let_def by simp

lemma firstTime_setClock: "firstTime (setClock ex g) = firstTime g"
  unfolding setClock_def Let_def by simp

lemma firstTime_pushStep: "firstTime (fst (pushStep (g, d))) = firstTime g"
  unfolding pushStep_def Let_def by simp

lemma gTable_update:
  "gTable (d \<lparr> inletTemp := a \<rparr>) = gTable d"
  "gTable (d \<lparr> outletTemp := b \<rparr>) = gTable d"
  "gTable (d \<lparr> boreholeTemp := c \<rparr>) = gTable d"
  "gTable (d \<lparr> lastQnSubHr := e \<rparr>) = gTable d"
  "gTable (d \<lparr> QGLHE := f \<rparr>) = gTable d"
  "gTable (d \<lparr> aveFluidTemp := h \<rparr>) = gTable d"
  "gTable (d \<lparr> QnHr := i \<rparr>) = gTable d"
  "gTable (d \<lparr> QnMonthlyAgg := j \<rparr>) = gTable d"
  "gTable (d \<lparr> QnSubHr := k \<rparr>) = gTable d"
  "gTable (d \<lparr> LastHourN := l \<rparr>) = gTable d"
  "gTable (d \<lparr> prevHour := m \<rparr>) = gTable d"
  "gTable (d \<lparr> timeSS := n \<rparr>) = gTable d"
  "gTable (d \<lparr> timeSSFactor := p \<rparr>) = gTable d"
  "gTable (d \<lparr> HXResistance := q \<rparr>) = gTable d"
  by (simp_all add: gTable_def)

lemma gTable_resetHistory: "gTable (snd (resetHistory ex (g, d))) = gTable d"
  by (subst resetHistory_form) (simp add: gTable_update)

lemma gTable_pushStep: "gTable (snd (pushStep (g, d))) = gTable d"
  by (subst pushStep_form) (simp add: gTable_update)

lemma gTable_calcAggregateLoad: "gTable (calcAggregateLoad g d) = gTable d"
  by (subst calcAggregateLoad_form) (simp add: gTable_update)

lemma gTable_virtuals:
  "gTable (GLHEVert_getAnnualTimeConstant d) = gTable d"
  "gTable (GLHEVert_calcHXResistance ex d) = gTable d"
  "gTable (GLHESlinky_getAnnualTimeConstant s) = gTable s"
  "gTable (GLHESlinky_calcHXResistance ex s) = gTable s"
     apply (subst GLHEVert_getAnnualTimeConstant_form, simp add: gTable_update)
    apply (subst GLHEVert_calcHXResistance_form, simp add: gTable_update)
   apply (subst GLHESlinky_getAnnualTimeConstant_form, simp add: gTable_update)
  apply (subst GLHESlinky_calcHXResistance_form, simp add: gTable_update)
  done

lemma gFuncCalls_calcGFunctions: "gFuncCalls (GLHESlinky_calcGFunctions d) = gFuncCalls d + 1"
proof -
  define d1 where "d1 = d \<lparr> X0 := allocate (numCoils d), Y0 := allocate (numTrenches d) \<rparr>"
  define d2 where "d2 = d1 \<lparr> NPairs := toInt ((tLg_max d1 - tLg_min) / tLg_grid + 1) \<rparr>"
  define d3 where "d3 = d2 \<lparr> GFNC := allocate (NPairs d2), LNTTS := allocate (NPairs d2),
                 QnMonthlyAgg := allocate (toInt (maxSimYears d2 * 12)),
                 QnHr := allocate (toInt (730 + 192.0 + 15.0)),
                 QnSubHr := allocate (toInt ((15.0 + 1) * of_int maxTSinHr + 1)),
                 LastHourN := allocate (toInt (15.0 + 1)) \<rparr>"
  define d4 where "d4 = forLoop 1 (NPairs d3)
               (\<lambda>i d. d \<lparr> GFNC := put1 (GFNC d) i 0.0, LNTTS := put1 (LNTTS d) i 0.0 \<rparr>) d3"
  define d5 where "d5 = forLoop 1 (numCoils d4)
               (\<lambda>coil d. d \<lparr> X0 := put1 (X0 d) coil (coilPitch d * of_int (coil - 1)) \<rparr>) d4"
  define d6 where "d6 = forLoop 1 (numTrenches d5)
               (\<lambda>trench d. d \<lparr> Y0 := put1 (Y0 d) trench (of_int (trench - 1) * trenchSpacing d) \<rparr>) d5"
  define d7 where "d7 = d6 \<lparr> Z0 := coilDepth d6 \<rparr>"
  define numLC where "numLC = \<lceil>of_int (numCoils d4) / (2.0::real)\<rceil>"
  define numRC where "numRC = \<lceil>of_int (numTrenches d4) / (2.0::real)\<rceil>"
  define d8 where "d8 = forLoop 1 (NPairs d7)
               (\<lambda>NT d.
                  (let tLg = tLg_min + tLg_grid * of_int (NT - 1);
                       t = (10 powr tLg) * ts;
                       gFunc = fieldResponse d t numRC numLC
                   in d \<lparr> GFNC := put1 (GFNC d) NT
                              ((gFunc * (coilDiameter d / 2.0))
                                / (4 * pi * (if numTrenches d7 > 1 then 0.25 else 0.5) * of_int (numTrenches d) * of_int (numCoils d))),
                           LNTTS := put1 (LNTTS d) NT tLg \<rparr>)) d7"
  have r: "GLHESlinky_calcGFunctions d = d8 \<lparr> gFuncCalls := gFuncCalls d8 + 1 \<rparr>"
    unfolding GLHESlinky_calcGFunctions_def Let_def d8_def d7_def d6_def d5_def d4_def d3_def d2_def d1_def
      numLC_def numRC_def ..
  have u3: "gFuncCalls d3 = gFuncCalls d" unfolding d3_def d2_def d1_def by simp
  have u4: "gFuncCalls d4 = gFuncCalls d"
    unfolding d4_def by (rule forLoop_invariant) (simp_all add: u3)
  have u5: "gFuncCalls d5 = gFuncCalls d"
    unfolding d5_def by (rule forLoop_invariant) (simp_all add: u4)
  have u6: "gFuncCalls d6 = gFuncCalls d"
    unfolding d6_def by (rule forLoop_invariant) (simp_all add: u5)
  have u7: "gFuncCalls d7 = gFuncCalls d" using u6 by (simp add: d7_def)
  have u8: "gFuncCalls d8 = gFuncCalls d"
    unfolding d8_def by (rule forLoop_invariant) (simp_all add: u7 Let_def)
  show ?thesis unfolding r using u8 by simp
qed

lemma guard_cleared:
  "firstTime (fst (calcGroundHeatExchanger cgf gatc hxr ex (g, d))) = False"
proof (cases "0 < simTime ex")
  case True
  show ?thesis
    unfolding calc_active[OF True] Let_def
    by (simp add: firstTime_pushStep firstTime_setClock firstTime_resetHistory)
next
  case False
  then have t: "simTime ex \<le> 0" by simp
  show ?thesis
    unfolding calc_inactive[OF t] Let_def
    by (simp add: firstTime_setClock firstTime_resetHistory)
qed

lemma call_keeps_table:
  assumes gatc: "\<And>d. gTable (gatc d) = gTable d"
    and hxr: "\<And>d. gTable (hxr ex d) = gTable d"
  shows "gTable (snd (calcGroundHeatExchanger cgf gatc hxr ex (g, d)))
           = gTable (if firstTime g then cgf d else d)"
proof -
  define d0 where "d0 = (if firstTime g then cgf d else d)"
  define d3 where "d3 = gatc (d0 \<lparr> inletTemp := NodeTemp g (inletNodeNum d0) \<rparr>)"
  define r where "r = resetHistory ex (g \<lparr> firstTime := False \<rparr>, d3)"
  have d3: "gTable d3 = gTable d0" by (simp add: d3_def gatc gTable_update)
  have r: "gTable (snd r) = gTable d0" unfolding r_def by (simp add: gTable_resetHistory d3)
  show ?thesis
  proof (cases "0 < simTime ex")
    case True
    define p where "p = pushStep (setClock ex (fst r), snd r)"
    define d8 where "d8 = hxr ex (calcAggregateLoad (fst p) (snd p))"
    have p: "gTable (snd p) = gTable d0" unfolding p_def by (simp add: gTable_pushStep r)
    have d8: "gTable d8 = gTable d0" unfolding d8_def by (simp add: hxr gTable_calcAggregateLoad p)
    define cp where "cp = cpGlycol ex (NodeTemp g (inletNodeNum d0))"
    define q where "q = respond (fst p) d8 cp"
    define g9 where "g9 = (fst p) \<lparr> ToutNew := snd (snd q) \<rparr>"
    have "calcGroundHeatExchanger cgf gatc hxr ex (g, d) =
      (g9, d8 \<lparr> boreholeTemp := tempGround d8 - sumTotal g9 d8, lastQnSubHr := fst q,
                  outletTemp := snd (snd q), QGLHE := fst q * totalTubeLength d8,
                  aveFluidTemp := fst (snd q) \<rparr>)"
      unfolding calc_active[OF True] Let_def d0_def d3_def cp_def r_def p_def d8_def q_def g9_def ..
    then show ?thesis using d8 by (simp add: gTable_update d0_def)
  next
    case False
    then have t: "simTime ex \<le> 0" by simp
    have "snd (calcGroundHeatExchanger cgf gatc hxr ex (g, d))
        = (snd r) \<lparr> outletTemp := inletTemp (snd r) \<rparr>"
      unfolding calc_inactive[OF t] Let_def r_def d3_def d0_def by simp
    then show ?thesis using r by (simp add: gTable_update d0_def)
  qed
qed

lemma later_call_keeps_table:
  assumes gatc: "\<And>d. gTable (gatc d) = gTable d"
    and hxr: "\<And>d. gTable (hxr ex' d) = gTable d"
  shows "gTable (snd (calcGroundHeatExchanger cgf gatc hxr ex'
            (fst (calcGroundHeatExchanger cgf0 gatc0 hxr0 ex (g, d0)), d))) = gTable d"
  by (subst call_keeps_table[where gatc=gatc and hxr=hxr and ex=ex', OF gatc hxr])
     (simp add: guard_cleared)

text \<open>
  Claim C8, on the code. The guard of \<^verbatim>\<open>calcGFunctions\<close> in \<^verbatim>\<open>calcGroundHeatExchanger\<close> is one
  \<^verbatim>\<open>static\<close> flag for all heat exchangers. The first heat exchanger that is simulated gets its
  g-functions (one call); any heat exchanger simulated after it, of either class and at any
  time, gets none: the number of its calls and its table are what they were.
\<close>

theorem g_functions_only_for_first_device:
  "gFuncCalls (snd (GLHESlinky_calcGroundHeatExchanger ex (g \<lparr> firstTime := True \<rparr>, dA)))
     = gFuncCalls dA + 1
   \<and> gTable (snd (GLHESlinky_calcGroundHeatExchanger ex'
        (fst (GLHESlinky_calcGroundHeatExchanger ex (g, dA)), dB))) = gTable dB
   \<and> gTable (snd (GLHESlinky_calcGroundHeatExchanger ex'
        (fst (GLHEVert_calcGroundHeatExchanger ex (g, dV)), dB))) = gTable dB
   \<and> gTable (snd (GLHEVert_calcGroundHeatExchanger ex'
        (fst (GLHESlinky_calcGroundHeatExchanger ex (g, dA)), dV))) = gTable dV
   \<and> gFuncCalls (snd (GLHESlinky_calcGroundHeatExchanger secondStep
        (fst (GLHESlinky_calcGroundHeatExchanger secondStep (startModule, exampleSlinky)),
         secondSlinky))) = 0"
proof -
  have one: "gTable (snd (GLHESlinky_calcGroundHeatExchanger ex (g \<lparr> firstTime := True \<rparr>, dA)))
      = gTable (GLHESlinky_calcGFunctions dA)"
    unfolding GLHESlinky_calcGroundHeatExchanger_def
    by (subst call_keeps_table) (simp_all add: gTable_virtuals)
  have calls: "gFuncCalls (GLHESlinky_calcGFunctions dA) = gFuncCalls dA + 1"
    by (rule gFuncCalls_calcGFunctions)
  have a: "gFuncCalls (snd (GLHESlinky_calcGroundHeatExchanger ex (g \<lparr> firstTime := True \<rparr>, dA)))
     = gFuncCalls dA + 1"
    using one calls by (simp add: gTable_def)
  have b: "gTable (snd (GLHESlinky_calcGroundHeatExchanger ex'
        (fst (GLHESlinky_calcGroundHeatExchanger ex (g, dA)), dB))) = gTable dB"
    unfolding GLHESlinky_calcGroundHeatExchanger_def
    by (rule later_call_keeps_table) (simp_all add: gTable_virtuals)
  have c: "gTable (snd (GLHESlinky_calcGroundHeatExchanger ex'
        (fst (GLHEVert_calcGroundHeatExchanger ex (g, dV)), dB))) = gTable dB"
    unfolding GLHESlinky_calcGroundHeatExchanger_def GLHEVert_calcGroundHeatExchanger_def
    by (rule later_call_keeps_table) (simp_all add: gTable_virtuals)
  have d: "gTable (snd (GLHEVert_calcGroundHeatExchanger ex'
        (fst (GLHESlinky_calcGroundHeatExchanger ex (g, dA)), dV))) = gTable dV"
    unfolding GLHESlinky_calcGroundHeatExchanger_def GLHEVert_calcGroundHeatExchanger_def
    by (rule later_call_keeps_table) (simp_all add: gTable_virtuals)
  have "gTable (snd (GLHESlinky_calcGroundHeatExchanger secondStep
        (fst (GLHESlinky_calcGroundHeatExchanger secondStep (startModule, exampleSlinky)),
         secondSlinky))) = gTable secondSlinky"
    unfolding GLHESlinky_calcGroundHeatExchanger_def
    by (rule later_call_keeps_table) (simp_all add: gTable_virtuals)
  then have e: "gFuncCalls (snd (GLHESlinky_calcGroundHeatExchanger secondStep
        (fst (GLHESlinky_calcGroundHeatExchanger secondStep (startModule, exampleSlinky)),
         secondSlinky))) = 0"
    by (simp add: gTable_def secondSlinky_def exampleSlinky_def blankSlinky_def)
  from a b c d e show ?thesis by simp
qed

subsection \<open>Input with a pipe that is too thick\<close>

lemma forLoopE_fails:
  "I \<le> k \<Longrightarrow> k \<le> limit \<Longrightarrow> (\<And>s. isl (body k s)) \<Longrightarrow> isl (forLoopE I limit body s)"
proof (induction I limit body s rule: forLoopE.induct)
  case (1 I limit body s)
  have le: "I \<le> limit" using "1.prems" by simp
  show ?case
  proof (cases "body I s")
    case (Inl e)
    then show ?thesis using le by (subst forLoopE.simps) simp
  next
    case (Inr s')
    then have "I \<noteq> k" using "1.prems"(3)[of s] by auto
    then have "I + 1 \<le> k" using "1.prems"(1) by simp
    then have "isl (forLoopE (I + 1) limit body s')"
      using "1.IH"[OF le Inr] "1.prems"(2,3) by simp
    then show ?thesis using le Inr by (subst forLoopE.simps) simp
  qed
qed

lemma readVerticalObject_pipe:
  "pipeThick (snd (readVerticalObject inp k w)) = at1 (rNumericArgs (at1 (verticalObjects inp) k)) 12"
  "pipeOutDia (snd (readVerticalObject inp k w)) = at1 (rNumericArgs (at1 (verticalObjects inp) k)) 10"
  by (simp_all add: readVerticalObject_def Let_def split_def)

lemma kusudaFromSurface_pipe:
  "pipeThick (kusudaFromSurface inp d) = pipeThick d"
  "pipeOutDia (kusudaFromSurface inp d) = pipeOutDia d"
  by (simp_all add: kusudaFromSurface_def Let_def split_def)

lemma slinkyFields_pipe:
  "pipeThick (slinkyFields inp ob alph d) = at1 (rNumericArgs ob) 9"
  "pipeOutDia (slinkyFields inp ob alph d) = at1 (rNumericArgs ob) 8"
  by (simp_all add: slinkyFields_def Let_def)

lemma slinkyCoilDepth_pipe:
  "pipeThick (snd (slinkyCoilDepth p)) = pipeThick (snd p)"
  "pipeOutDia (snd (slinkyCoilDepth p)) = pipeOutDia (snd p)"
  by (simp_all add: slinkyCoilDepth_def split_def)

lemma slinkyGroundTemps_pipe:
  "pipeThick (snd (slinkyGroundTemps inp num p)) = pipeThick (snd p)"
  "pipeOutDia (snd (slinkyGroundTemps inp num p)) = pipeOutDia (snd p)"
  by (simp_all add: slinkyGroundTemps_def kusudaFromSurface_pipe split_def)

lemma readSlinkyObject_pipe:
  "pipeThick (snd (readSlinkyObject inp k w)) = at1 (rNumericArgs (at1 (slinkyObjects inp) k)) 9"
  "pipeOutDia (snd (readSlinkyObject inp k w)) = at1 (rNumericArgs (at1 (slinkyObjects inp) k)) 8"
  unfolding readSlinkyObject_def Let_def split_def
  by (simp_all add: slinkyGroundTemps_pipe slinkyCoilDepth_pipe slinkyFields_pipe
        split del: if_split)

lemma getVerticalObject_thick:
  assumes "thickPipeVertical (at1 (verticalObjects inp) k)"
  shows "isl (getVerticalObject inp k s)"
proof -
  obtain w allocated where s: "s = (w, allocated)" by (cases s)
  have c: "pipeThick (snd (readVerticalObject inp k w)) \<ge> pipeOutDia (snd (readVerticalObject inp k w)) / 2.0"
    using assms by (simp add: readVerticalObject_pipe thickPipeVertical_def)
  show ?thesis
    unfolding s getVerticalObject_def Let_def split_def using c by simp
qed

lemma getSlinkyObject_thick:
  assumes "thickPipeSlinky (at1 (slinkyObjects inp) k)"
  shows "isl (getSlinkyObject inp k s)"
proof -
  obtain w allocated where s: "s = (w, allocated)" by (cases s)
  have c: "pipeThick (snd (readSlinkyObject inp k w)) \<ge> pipeOutDia (snd (readSlinkyObject inp k w)) / 2.0"
    using assms by (simp add: readSlinkyObject_pipe thickPipeSlinky_def)
  show ?thesis
    unfolding s getSlinkyObject_def Let_def split_def using c by simp
qed

lemma forLoopE_invariant:
  "P I s \<Longrightarrow> (\<And>J s s'. I \<le> J \<Longrightarrow> J \<le> limit \<Longrightarrow> P J s \<Longrightarrow> body J s = Inr s' \<Longrightarrow> P (J + 1) s')
     \<Longrightarrow> forLoopE I limit body s = Inr t \<Longrightarrow> P (if I \<le> limit then limit + 1 else I) t"
proof (induction I limit body s rule: forLoopE.induct)
  case (1 I limit body s)
  show ?case
  proof (cases "I \<le> limit")
    case False
    then show ?thesis using "1.prems"(1,3) by (subst (asm) forLoopE.simps) simp
  next
    case le: True
    show ?thesis
    proof (cases "body I s")
      case (Inl e)
      then show ?thesis using le "1.prems"(3) by (subst (asm) forLoopE.simps) simp
    next
      case (Inr s')
      have run: "forLoopE (I + 1) limit body s' = Inr t"
        using le Inr "1.prems"(3) by (subst (asm) forLoopE.simps) simp
      have P: "P (I + 1) s'" using "1.prems"(2)[OF _ le "1.prems"(1) Inr] by simp
      have step: "\<And>J s s'. I + 1 \<le> J \<Longrightarrow> J \<le> limit \<Longrightarrow> P J s \<Longrightarrow> body J s = Inr s' \<Longrightarrow> P (J + 1) s'"
        using "1.prems"(2) by simp
      have "P (if I + 1 \<le> limit then limit + 1 else I + 1) t"
        using "1.IH"[OF le Inr P step run] .
      then show ?thesis
      proof (cases "I + 1 \<le> limit")
        case True
        then show ?thesis using \<open>P (if I + 1 \<le> limit then limit + 1 else I + 1) t\<close> le by simp
      next
        case False
        then have "I = limit" using le by simp
        then show ?thesis using \<open>P (if I + 1 \<le> limit then limit + 1 else I + 1) t\<close> by simp
      qed
    qed
  qed
qed

lemma readVerticalObject_counts:
  "numSlinkyGLHEs (fst (readVerticalObject inp k w)) = numSlinkyGLHEs w"
  "numVerticalGLHEs (fst (readVerticalObject inp k w)) = numVerticalGLHEs w"
  by (simp_all add: readVerticalObject_def Let_def split_def)

lemma getVerticalObject_counts:
  assumes "getVerticalObject inp k s = Inr s'"
  shows "numSlinkyGLHEs (fst s') = numSlinkyGLHEs (fst s)"
proof -
  obtain w allocated where s: "s = (w, allocated)" by (cases s)
  show ?thesis
    using assms unfolding s getVerticalObject_def Let_def split_def
    by (auto simp: readVerticalObject_counts split: if_splits)
qed

lemma list_ex_at1:
  assumes "list_ex P xs"
  shows "\<exists>k. 1 \<le> k \<and> k \<le> int (length xs) \<and> P (at1 xs k)"
proof -
  from assms obtain i where i: "i < length xs" "P (xs ! i)"
    by (auto simp: list_ex_iff in_set_conv_nth)
  then have "1 \<le> int i + 1 \<and> int i + 1 \<le> int (length xs) \<and> P (at1 xs (int i + 1))"
    by (simp add: at1_def)
  then show ?thesis by blast
qed

lemma vertical_loop_fails:
  assumes "list_ex thickPipeVertical (verticalObjects inp)"
  shows "isl (forLoopE 1 (int (length (verticalObjects inp))) (getVerticalObject inp) s)"
proof -
  from list_ex_at1[OF assms] obtain k where k: "1 \<le> k" "k \<le> int (length (verticalObjects inp))"
    "thickPipeVertical (at1 (verticalObjects inp) k)" by blast
  show ?thesis
    by (rule forLoopE_fails[OF k(1,2)]) (rule getVerticalObject_thick[OF k(3)])
qed

lemma slinky_loop_fails:
  assumes "list_ex thickPipeSlinky (slinkyObjects inp)"
  shows "isl (forLoopE 1 (int (length (slinkyObjects inp))) (getSlinkyObject inp) s)"
proof -
  from list_ex_at1[OF assms] obtain k where k: "1 \<le> k" "k \<le> int (length (slinkyObjects inp))"
    "thickPipeSlinky (at1 (slinkyObjects inp) k)" by blast
  show ?thesis
    by (rule forLoopE_fails[OF k(1,2)]) (rule getSlinkyObject_thick[OF k(3)])
qed

lemma vertical_loop_counts:
  assumes "forLoopE I limit (getVerticalObject inp) s = Inr t"
  shows "numSlinkyGLHEs (fst t) = numSlinkyGLHEs (fst s)"
proof -
  have "(\<lambda>J u. numSlinkyGLHEs (fst u) = numSlinkyGLHEs (fst s))
          (if I \<le> limit then limit + 1 else I) t"
    by (rule forLoopE_invariant[where P="\<lambda>J u. numSlinkyGLHEs (fst u) = numSlinkyGLHEs (fst s)",
          OF _ _ assms]) (simp_all add: getVerticalObject_counts)
  then show ?thesis by simp
qed

lemma input_fails:
  assumes "thickPipeInput inp"
  shows "isl (GetGroundHeatExchangerInput inp w)"
proof -
  define w1 where "w1 = w \<lparr> numVerticalGLHEs := int (length (verticalObjects inp)),
                 numSlinkyGLHEs := int (length (slinkyObjects inp)) \<rparr>"
  define w2 where "w2 = (if numVerticalGLHEs w1 \<le> 0 \<and> numSlinkyGLHEs w1 \<le> 0
              then w1 \<lparr> errorsFound := True \<rparr> else w1)"
  define r where "r = (if numVerticalGLHEs w2 > 0
              then forLoopE 1 (numVerticalGLHEs w2) (getVerticalObject inp)
                     (w2 \<lparr> verticalGLHE := replicate (nat (numVerticalGLHEs w2)) (newVert inp),
                          checkEquipName := replicate (nat (numVerticalGLHEs w2)) True \<rparr>, False)
              else Inr (w2, False))"
  have nv: "numVerticalGLHEs w2 = int (length (verticalObjects inp))"
    and ns: "numSlinkyGLHEs w2 = int (length (slinkyObjects inp))"
    by (simp_all add: w2_def w1_def)
  have G: "GetGroundHeatExchangerInput inp w =
     (case r of
          Inl e \<Rightarrow> Inl e
        | Inr (w, allocated) \<Rightarrow>
           (if numSlinkyGLHEs w > 0
            then (case forLoopE 1 (numSlinkyGLHEs w) (getSlinkyObject inp)
                         (w \<lparr> slinkyGLHE := replicate (nat (numSlinkyGLHEs w)) (newSlinky inp),
                              checkEquipName := replicate (nat (numSlinkyGLHEs w)) True \<rparr>, False) of
                    Inl e \<Rightarrow> Inl e
                  | Inr (w, allocated) \<Rightarrow> Inr w)
            else Inr w))"
    unfolding GetGroundHeatExchangerInput_def Let_def r_def w2_def w1_def ..
  show ?thesis
  proof (cases r)
    case (Inl e)
    then show ?thesis by (simp add: G)
  next
    case (Inr p)
    obtain w3 a where p: "p = (w3, a)" by (cases p)
    have notv: "\<not> list_ex thickPipeVertical (verticalObjects inp)"
    proof
      assume v: "list_ex thickPipeVertical (verticalObjects inp)"
      then have "verticalObjects inp \<noteq> []" by auto
      then have "numVerticalGLHEs w2 > 0" by (simp add: nv)
      then have "isl r" using vertical_loop_fails[OF v] by (simp add: r_def nv)
      then show False using Inr by simp
    qed
    then have sl: "list_ex thickPipeSlinky (slinkyObjects inp)"
      using assms by (simp add: thickPipeInput_def)
    have "numSlinkyGLHEs w3 = numSlinkyGLHEs w2"
    proof (cases "numVerticalGLHEs w2 > 0")
      case True
      then show ?thesis using vertical_loop_counts[of 1 "numVerticalGLHEs w2" inp _ p] Inr
        by (simp add: r_def p)
    next
      case False
      then show ?thesis using Inr by (simp add: r_def p)
    qed
    then have n3: "numSlinkyGLHEs w3 = int (length (slinkyObjects inp))" by (simp add: ns)
    have "slinkyObjects inp \<noteq> []" using sl by auto
    then have pos: "numSlinkyGLHEs w3 > 0" by (simp add: n3)
    define L where "L = forLoopE 1 (numSlinkyGLHEs w3) (getSlinkyObject inp)
                 (w3 \<lparr> slinkyGLHE := replicate (nat (numSlinkyGLHEs w3)) (newSlinky inp),
                      checkEquipName := replicate (nat (numSlinkyGLHEs w3)) True \<rparr>, False)"
    have "isl L"
      unfolding L_def n3 by (rule slinky_loop_fails[OF sl])
    then obtain e where e: "L = Inl e" by (cases L) simp_all
    show ?thesis using pos e by (simp add: G Inr p L_def[symmetric])
  qed
qed

text \<open>
  Claim C9. When some object of the input has a pipe whose thickness is at least half of its
  outer diameter, \<^verbatim>\<open>GetGroundHeatExchangerInput\<close> ends with a fatal error, and so does the call of
  \<^verbatim>\<open>SimGroundHeatExchangers\<close> that reads the input (the first one, where \<^verbatim>\<open>GetInput\<close> is set),
  whatever heat exchanger it was called for: no heat exchanger is initialised or simulated.
\<close>

theorem thick_pipe_is_fatal:
  "thickPipeInput inp \<longrightarrow>
     isl (GetGroundHeatExchangerInput inp w)
     \<and> (GetInput w \<longrightarrow> isl (SimGroundHeatExchangers inp ex type nm compIndex initLoopEquip w))"
proof
  assume t: "thickPipeInput inp"
  have f: "isl (GetGroundHeatExchangerInput inp w)" by (rule input_fails[OF t])
  then obtain e where e: "GetGroundHeatExchangerInput inp w = Inl e"
    by (cases "GetGroundHeatExchangerInput inp w") simp_all
  have "GetInput w \<longrightarrow> isl (SimGroundHeatExchangers inp ex type nm compIndex initLoopEquip w)"
    by (simp add: SimGroundHeatExchangers_def e)
  with f show "isl (GetGroundHeatExchangerInput inp w)
     \<and> (GetInput w \<longrightarrow> isl (SimGroundHeatExchangers inp ex type nm compIndex initLoopEquip w))"
    by simp
qed

theorem thick_pipe_is_fatal_witness:
  "thickPipeInput thickInput \<and> GetInput startWorld
   \<and> isl (GetGroundHeatExchangerInput thickInput startWorld)
   \<and> isl (SimGroundHeatExchangers thickInput firstInstant ''GROUNDHEATEXCHANGER:VERTICAL''
              ''VERTICAL GHE 1'' 0 True startWorld)"
proof -
  have t: "thickPipeInput thickInput"
    by (simp add: thickPipeInput_def thickInput_def thickObject_def thickPipeVertical_def at1_def)
  have g: "GetInput startWorld" by (simp add: startWorld_def)
  from thick_pipe_is_fatal[of thickInput startWorld firstInstant "''GROUNDHEATEXCHANGER:VERTICAL''"
      "''VERTICAL GHE 1''" 0 True] t g
  show ?thesis by simp
qed






text \<open>The branch \<^verbatim>\<open>N == 1\<close> is not taken by a call at a positive time.\<close>

lemma stepCounted_startModule: "stepCounted startModule"
  by (simp add: stepCounted_def startModule_def at1_def)

lemma stepCounted_resetHistory:
  assumes "stepCounted g"
  shows "stepCounted (fst (resetHistory ex (g, d)))"
  using assms unfolding resetHistory_cases stepCounted_def
  by (auto simp: fill_def at1_def)

lemma stepCounted_setClock: "stepCounted (setClock ex g) = stepCounted g"
  by (simp add: stepCounted_def setClock_fields)

lemma pushStep_counter:
  assumes "stepCounted g" "0 < currentSimTime g"
  shows "2 \<le> N (fst (pushStep (g, d)))" and "prevTimeSteps (fst (pushStep (g, d))) \<noteq> []"
  using assms unfolding stepCounted_def pushStep_def Let_def
  by (auto simp: eoshift_def split: if_splits)

lemma general_branch_at_positive_time:
  assumes inv: "stepCounted g" and time: "0 < simTime ex"
  shows "2 \<le> N (fst (calcGroundHeatExchanger cgf gatc hxr ex (g, d)))"
    and "stepCounted (fst (calcGroundHeatExchanger cgf gatc hxr ex (g, d)))"
proof -
  define d3 where "d3 = gatc ((if firstTime g then cgf d else d) \<lparr> inletTemp := NodeTemp g (inletNodeNum (if firstTime g then cgf d else d)) \<rparr>)"
  define r where "r = resetHistory ex (g \<lparr> firstTime := False \<rparr>, d3)"
  define p where "p = pushStep (setClock ex (fst r), snd r)"
  have g0: "stepCounted (g \<lparr> firstTime := False \<rparr>)" using inv by (simp add: stepCounted_def)
  have r: "stepCounted (fst r)" unfolding r_def by (rule stepCounted_resetHistory[OF g0])
  then have c: "stepCounted (setClock ex (fst r))" by (simp add: stepCounted_setClock)
  have t: "0 < currentSimTime (setClock ex (fst r))" using time by (simp add: currentSimTime_setClock)
  have n: "2 \<le> N (fst p)"
    unfolding p_def by (rule pushStep_counter(1)[OF c t])
  have ne: "prevTimeSteps (fst p) \<noteq> []"
    unfolding p_def by (rule pushStep_counter(2)[OF c t])
  have eq: "fst (calcGroundHeatExchanger cgf gatc hxr ex (g, d))
      = (fst p) \<lparr> ToutNew := ToutNew (fst (calcGroundHeatExchanger cgf gatc hxr ex (g, d))) \<rparr>"
    unfolding calc_active[OF time] Let_def p_def r_def d3_def by simp
  have "N (fst (calcGroundHeatExchanger cgf gatc hxr ex (g, d))) = N (fst p)"
    by (subst eq) simp
  moreover have "prevTimeSteps (fst (calcGroundHeatExchanger cgf gatc hxr ex (g, d))) = prevTimeSteps (fst p)"
    by (subst eq) simp
  ultimately show "2 \<le> N (fst (calcGroundHeatExchanger cgf gatc hxr ex (g, d)))"
    and "stepCounted (fst (calcGroundHeatExchanger cgf gatc hxr ex (g, d)))"
    using n ne by (simp_all add: stepCounted_def)
qed

lemma stepCounted_at_rest:
  assumes inv: "stepCounted g" and time: "simTime ex \<le> 0"
  shows "stepCounted (fst (calcGroundHeatExchanger cgf gatc hxr ex (g, d)))"
proof -
  define d3 where "d3 = gatc ((if firstTime g then cgf d else d) \<lparr> inletTemp := NodeTemp g (inletNodeNum (if firstTime g then cgf d else d)) \<rparr>)"
  define r where "r = resetHistory ex (g \<lparr> firstTime := False \<rparr>, d3)"
  define g5 where "g5 = setClock ex (fst r)"
  have g0: "stepCounted (g \<lparr> firstTime := False \<rparr>)" using inv by (simp add: stepCounted_def)
  have r: "stepCounted (fst r)" unfolding r_def by (rule stepCounted_resetHistory[OF g0])
  then have c: "stepCounted g5" by (simp add: g5_def stepCounted_setClock)
  have "fst (calcGroundHeatExchanger cgf gatc hxr ex (g, d))
      = g5 \<lparr> prevTimeSteps := fill (prevTimeSteps g5) 0.0 \<rparr>"
    unfolding calc_inactive[OF time] Let_def g5_def r_def d3_def by simp
  then show ?thesis using c by (auto simp: stepCounted_def fill_def at1_def)
qed




subsection \<open>The call without flow\<close>

lemma RQ_responseAt: "RQ d dt = responseAt d dt"
  by (simp add: RQ_def responseAt_def kGroundFactor_def)

lemma forSum_sum: "fst (forSum I limit body 0) = (\<Sum>J = I..limit. body J)"
  by (simp add: forSum_eq)

lemma sumNoAggregation_pulses:
  "sumNoAggregation g d =
    (let t = currentSimTime g; hour = toInt t;
         level = (if hour < SubAGG d then hour + 1 else SubAGG d + 1) in
       pulseSum 1 (N g - at1 (LastHourN d) level) (at1 (QnSubHr d))
            (if hour \<ge> SubAGG d then at1 (QnHr d) level else 0)
            (\<lambda>i. responseAt d (t - at1 (prevTimeSteps g) (i + 1)))
        + pulseSum (SubAGG d + 1) hour (at1 (QnHr d)) 0
            (\<lambda>i. responseAt d (t - of_int hour + of_int i)))"
  unfolding sumNoAggregation_def Let_def forSum_sum pulseSum_def RQ_responseAt
  by (intro arg_cong2[where f="(+)"] sum.cong refl) auto

lemma sumAggregation_pulses:
  "sumAggregation g d =
    (let t = currentSimTime g; hour = toInt t;
         months = toInt ((t + 1) / hrsPerMonth);
         month = (if t < of_int months * hrsPerMonth + of_int (AGG d) + of_int (SubAGG d)
                  then months - 1 else months);
         hours = toInt (t - of_int month * hrsPerMonth) in
       (\<Sum>i = 1..month. (at1 (QnMonthlyAgg d) i - (if i = 1 then 0 else at1 (QnMonthlyAgg d) (i - 1)))
                          * responseAt d (t - of_int (i - 1) * hrsPerMonth))
     + pulseSum (1 + SubAGG d) hours (at1 (QnHr d)) (at1 (QnMonthlyAgg d) month)
         (\<lambda>i. responseAt d (t - of_int hour + of_int i))
     + pulseSum 1 (N g - at1 (LastHourN d) (SubAGG d + 1)) (at1 (QnSubHr d))
         (at1 (QnHr d) (SubAGG d + 1))
         (\<lambda>i. responseAt d (t - at1 (prevTimeSteps g) (i + 1))))"
  unfolding sumAggregation_def Let_def forSum_sum pulseSum_def RQ_responseAt
  by (intro arg_cong2[where f="(+)"] sum.cong refl) auto

lemma sumTotal_historyDrop: "sumTotal g d = historyDrop g d"
  unfolding sumTotal_def historyDrop_def sumNoAggregation_pulses sumAggregation_pulses Let_def
  by simp

text \<open>What the phases of a call after \<^verbatim>\<open>getAnnualTimeConstant\<close> leave alone.\<close>

lemma settings_update:
  "settings (d \<lparr> outletTemp := b \<rparr>) = settings d"
  "settings (d \<lparr> boreholeTemp := c \<rparr>) = settings d"
  "settings (d \<lparr> lastQnSubHr := e \<rparr>) = settings d"
  "settings (d \<lparr> QGLHE := f \<rparr>) = settings d"
  "settings (d \<lparr> aveFluidTemp := h \<rparr>) = settings d"
  "settings (d \<lparr> QnHr := i \<rparr>) = settings d"
  "settings (d \<lparr> QnMonthlyAgg := j \<rparr>) = settings d"
  "settings (d \<lparr> QnSubHr := k \<rparr>) = settings d"
  "settings (d \<lparr> LastHourN := l \<rparr>) = settings d"
  "settings (d \<lparr> prevHour := m \<rparr>) = settings d"
  "settings (d \<lparr> HXResistance := q \<rparr>) = settings d"
  by (simp_all add: settings_def)

lemma settings_resetHistory: "settings (snd (resetHistory ex (g, d))) = settings d"
  by (subst resetHistory_form) (simp add: settings_update)

lemma settings_pushStep: "settings (snd (pushStep (g, d))) = settings d"
  by (subst pushStep_form) (simp add: settings_update)

lemma settings_calcAggregateLoad: "settings (calcAggregateLoad g d) = settings d"
  by (subst calcAggregateLoad_form) (simp add: settings_update)

lemma settings_calcHXResistance:
  "settings (GLHEVert_calcHXResistance ex d) = settings d"
  "settings (GLHESlinky_calcHXResistance ex s) = settings s"
   apply (subst GLHEVert_calcHXResistance_form, simp add: settings_update)
  apply (subst GLHESlinky_calcHXResistance_form, simp add: settings_update)
  done

lemma call_keeps_settings:
  assumes hxr: "\<And>d. settings (hxr ex d) = settings d"
  shows "settings (snd (calcGroundHeatExchanger cgf gatc hxr ex (g, d)))
           = settings (gatc ((if firstTime g then cgf d else d)
                \<lparr> inletTemp := NodeTemp g (inletNodeNum (if firstTime g then cgf d else d)) \<rparr>))"
proof -
  define d3 where "d3 = gatc ((if firstTime g then cgf d else d) \<lparr> inletTemp := NodeTemp g (inletNodeNum (if firstTime g then cgf d else d)) \<rparr>)"
  define r where "r = resetHistory ex (g \<lparr> firstTime := False \<rparr>, d3)"
  have r: "settings (snd r) = settings d3" unfolding r_def by (simp add: settings_resetHistory)
  show ?thesis
  proof (cases "0 < simTime ex")
    case True
    define p where "p = pushStep (setClock ex (fst r), snd r)"
    define d8 where "d8 = hxr ex (calcAggregateLoad (fst p) (snd p))"
    define cp where "cp = cpGlycol ex (NodeTemp g (inletNodeNum (if firstTime g then cgf d else d)))"
    define q where "q = respond (fst p) d8 cp"
    define g9 where "g9 = (fst p) \<lparr> ToutNew := snd (snd q) \<rparr>"
    have p: "settings (snd p) = settings d3" unfolding p_def by (simp add: settings_pushStep r)
    have d8: "settings d8 = settings d3"
      unfolding d8_def by (simp add: hxr settings_calcAggregateLoad p)
    have "calcGroundHeatExchanger cgf gatc hxr ex (g, d) =
      (g9, d8 \<lparr> boreholeTemp := tempGround d8 - sumTotal g9 d8, lastQnSubHr := fst q,
                  outletTemp := snd (snd q), QGLHE := fst q * totalTubeLength d8,
                  aveFluidTemp := fst (snd q) \<rparr>)"
      unfolding calc_active[OF True] Let_def d3_def cp_def r_def p_def d8_def q_def g9_def ..
    then show ?thesis using d8 by (simp add: settings_update d3_def)
  next
    case False
    then have t: "simTime ex \<le> 0" by simp
    have "snd (calcGroundHeatExchanger cgf gatc hxr ex (g, d))
        = (snd r) \<lparr> outletTemp := inletTemp (snd r) \<rparr>"
      unfolding calc_inactive[OF t] Let_def r_def d3_def by simp
    then show ?thesis using r by (simp add: settings_update d3_def)
  qed
qed

lemma currentSimTime_call:
  assumes time: "0 < simTime ex"
  shows "currentSimTime (fst (calcGroundHeatExchanger cgf gatc hxr ex (g, d))) = simTime ex"
proof -
  define d3 where "d3 = gatc ((if firstTime g then cgf d else d) \<lparr> inletTemp := NodeTemp g (inletNodeNum (if firstTime g then cgf d else d)) \<rparr>)"
  define r where "r = resetHistory ex (g \<lparr> firstTime := False \<rparr>, d3)"
  define p where "p = pushStep (setClock ex (fst r), snd r)"
  have eq: "fst (calcGroundHeatExchanger cgf gatc hxr ex (g, d))
      = (fst p) \<lparr> ToutNew := ToutNew (fst (calcGroundHeatExchanger cgf gatc hxr ex (g, d))) \<rparr>"
    unfolding calc_active[OF time] Let_def p_def r_def d3_def by simp
  have "currentSimTime (fst (calcGroundHeatExchanger cgf gatc hxr ex (g, d))) = currentSimTime (fst p)"
    by (subst eq) simp
  then show ?thesis unfolding p_def by (simp add: currentSimTime_pushStep currentSimTime_setClock)
qed

lemma settings_vertical:
  "settings (GLHEVert_getAnnualTimeConstant (d \<lparr> inletTemp := T \<rparr>))
     = (tempGround d, kGround d, SubAGG d, AGG d,
        (boreholeLength d)\<^sup>2 / (9.0 * diffusivityGround d) / SecInHour / 8760.0 * 8760.0, T)"
  "settings (GLHEVert_calcGFunctions d) = settings d"
  "inletNodeNum (GLHEVert_calcGFunctions d) = inletNodeNum d"
  by (simp_all add: settings_def GLHEVert_getAnnualTimeConstant_def Let_def GLHEVert_calcGFunctions_def)

lemma settings_slinky:
  "settings (GLHESlinky_getAnnualTimeConstant (d \<lparr> inletTemp := T \<rparr>))
     = (tempGround d, kGround d, SubAGG d, AGG d, 1.0, T)"
  by (simp add: settings_def GLHESlinky_getAnnualTimeConstant_def Let_def)

lemma unwritten_ground:
  "tempGround d = tempGround (unwritten d)" "kGround d = kGround (unwritten d)"
  "SubAGG d = SubAGG (unwritten d)" "AGG d = AGG (unwritten d)"
  by (simp_all add: unwritten_def)

lemma GLHESlinky_calcGFunctions_ground:
  "tempGround (GLHESlinky_calcGFunctions d) = tempGround d"
  "kGround (GLHESlinky_calcGFunctions d) = kGround d"
  "SubAGG (GLHESlinky_calcGFunctions d) = SubAGG d"
  "AGG (GLHESlinky_calcGFunctions d) = AGG d"
  using unwritten_calcGFunctions[of d] unwritten_ground by metis+

lemma zero_flow_vertical:
  assumes time: "0 < simTime ex" and flow: "massFlowRate d \<le> 0"
    and res: "GLHEVert_calcGroundHeatExchanger ex (g, d) = (g', d')"
  shows "QGLHE d' = 0" "outletTemp d' = inletTemp d'" "inletTemp d' = NodeTemp g (inletNodeNum d)"
    "aveFluidTemp d' = tempGround d - historyDrop g' d'"
    "boreholeTemp d' = tempGround d - historyDrop g' d'"
    "settings d' = (tempGround d, kGround d, SubAGG d, AGG d,
        (boreholeLength d)\<^sup>2 / (9.0 * diffusivityGround d) / SecInHour / 8760.0 * 8760.0,
        NodeTemp g (inletNodeNum d))"
proof -
  note a = zero_flow_generic[OF GLHEVert_virtuals_keep(2) GLHEVert_virtuals_keep(5)
      GLHEVert_virtuals_keep(6) flow time res[unfolded GLHEVert_calcGroundHeatExchanger_def]]
  have d': "d' = snd (calcGroundHeatExchanger GLHEVert_calcGFunctions GLHEVert_getAnnualTimeConstant
      GLHEVert_calcHXResistance ex (g, d))"
    using res by (simp add: GLHEVert_calcGroundHeatExchanger_def)
  have s: "settings d' = (tempGround d, kGround d, SubAGG d, AGG d,
        (boreholeLength d)\<^sup>2 / (9.0 * diffusivityGround d) / SecInHour / 8760.0 * 8760.0,
        NodeTemp g (inletNodeNum d))"
    unfolding d'
    by (subst call_keeps_settings[where hxr=GLHEVert_calcHXResistance, OF settings_calcHXResistance(1)])
       (cases "firstTime g"; simp add: settings_vertical GLHEVert_calcGFunctions_def)
  then show "settings d' = (tempGround d, kGround d, SubAGG d, AGG d,
        (boreholeLength d)\<^sup>2 / (9.0 * diffusivityGround d) / SecInHour / 8760.0 * 8760.0,
        NodeTemp g (inletNodeNum d))" .
  from s have tg: "tempGround d' = tempGround d" and it: "inletTemp d' = NodeTemp g (inletNodeNum d)"
    by (simp_all add: settings_def)
  show "QGLHE d' = 0" "outletTemp d' = inletTemp d'" using a by simp_all
  show "inletTemp d' = NodeTemp g (inletNodeNum d)" by (rule it)
  show "aveFluidTemp d' = tempGround d - historyDrop g' d'"
    "boreholeTemp d' = tempGround d - historyDrop g' d'"
    using a tg by (simp_all add: sumTotal_historyDrop)
qed

lemma zero_flow_slinky:
  assumes time: "0 < simTime ex" and flow: "massFlowRate d \<le> 0"
    and res: "GLHESlinky_calcGroundHeatExchanger ex (g, d) = (g', d')"
  shows "QGLHE d' = 0" "outletTemp d' = inletTemp d'" "inletTemp d' = NodeTemp g (inletNodeNum d)"
    "aveFluidTemp d' = tempGround d - historyDrop g' d'"
    "boreholeTemp d' = tempGround d - historyDrop g' d'"
    "settings d' = (tempGround d, kGround d, SubAGG d, AGG d, 1.0, NodeTemp g (inletNodeNum d))"
proof -
  note a = zero_flow_generic[OF GLHESlinky_calcGFunctions_keeps(2) GLHESlinky_virtuals_keep(3)
      GLHESlinky_virtuals_keep(4) flow time res[unfolded GLHESlinky_calcGroundHeatExchanger_def]]
  have d': "d' = snd (calcGroundHeatExchanger GLHESlinky_calcGFunctions GLHESlinky_getAnnualTimeConstant
      GLHESlinky_calcHXResistance ex (g, d))"
    using res by (simp add: GLHESlinky_calcGroundHeatExchanger_def)
  have s: "settings d' = (tempGround d, kGround d, SubAGG d, AGG d, 1.0, NodeTemp g (inletNodeNum d))"
    unfolding d'
    by (subst call_keeps_settings[where hxr=GLHESlinky_calcHXResistance, OF settings_calcHXResistance(2)])
       (cases "firstTime g"; simp add: settings_slinky GLHESlinky_calcGFunctions_ground
          GLHESlinky_calcGFunctions_keeps)
  then show "settings d' = (tempGround d, kGround d, SubAGG d, AGG d, 1.0, NodeTemp g (inletNodeNum d))" .
  from s have tg: "tempGround d' = tempGround d" and it: "inletTemp d' = NodeTemp g (inletNodeNum d)"
    by (simp_all add: settings_def)
  show "QGLHE d' = 0" "outletTemp d' = inletTemp d'" using a by simp_all
  show "inletTemp d' = NodeTemp g (inletNodeNum d)" by (rule it)
  show "aveFluidTemp d' = tempGround d - historyDrop g' d'"
    "boreholeTemp d' = tempGround d - historyDrop g' d'"
    using a tg by (simp_all add: sumTotal_historyDrop)
qed

text \<open>
  Claim C3. At a positive time and with no flow, \<^verbatim>\<open>calcGroundHeatExchanger\<close> leaves a heat
  rate of exactly zero and an outlet temperature equal to the inlet temperature, which is
  the temperature of the inlet node. The average fluid temperature and the borehole wall
  temperature are the ground temperature minus the temperature drop due to the history,
  summed over its resolutions as \<open>historyDrop\<close> states it. This holds for the vertical and for
  the slinky heat exchanger.
\<close>

theorem zero_flow_bypass:
  assumes "0 < simTime ex" and "massFlowRate dV \<le> 0" and "massFlowRate dS \<le> 0"
  shows "(case GLHEVert_calcGroundHeatExchanger ex (g, dV) of (g', d') \<Rightarrow>
            QGLHE d' = 0 \<and> outletTemp d' = inletTemp d'
            \<and> inletTemp d' = NodeTemp g (inletNodeNum dV)
            \<and> aveFluidTemp d' = tempGround dV - historyDrop g' d'
            \<and> boreholeTemp d' = tempGround dV - historyDrop g' d')
       \<and> (case GLHESlinky_calcGroundHeatExchanger ex (g, dS) of (g', d') \<Rightarrow>
            QGLHE d' = 0 \<and> outletTemp d' = inletTemp d'
            \<and> inletTemp d' = NodeTemp g (inletNodeNum dS)
            \<and> aveFluidTemp d' = tempGround dS - historyDrop g' d'
            \<and> boreholeTemp d' = tempGround dS - historyDrop g' d')"
proof -
  obtain gv dv where v: "GLHEVert_calcGroundHeatExchanger ex (g, dV) = (gv, dv)"
    by (cases "GLHEVert_calcGroundHeatExchanger ex (g, dV)")
  obtain gs ds where s: "GLHESlinky_calcGroundHeatExchanger ex (g, dS) = (gs, ds)"
    by (cases "GLHESlinky_calcGroundHeatExchanger ex (g, dS)")
  note a = zero_flow_vertical[OF assms(1,2) v]
  note b = zero_flow_slinky[OF assms(1,3) s]
  show ?thesis unfolding v s using a(1-5) b(1-5) by simp
qed

lemma simTime_minuteStep: "simTime minuteStep = 1 / 30"
  by (simp add: simTime_def minuteStep_def firstInstant_def)

lemma settled_stopped:
  "settled minuteStep stoppedModule stoppedVert" "settled minuteStep stoppedModule stoppedSlinky"
proof -
  have d: "DayOfSim minuteStep = 1" "WarmupFlag minuteStep"
    by (simp_all add: minuteStep_def firstInstant_def)
  have h: "toInt (fmod (1 / 30) hrsPerDay + 1) = 1"
    by (simp add: toInt_def fmod_def hrsPerDay_def)
  show "settled minuteStep stoppedModule stoppedVert"
    unfolding settled_def simTime_minuteStep h d
    by (simp add: stoppedModule_def startModule_def at1_def stoppedVert_def)
  show "settled minuteStep stoppedModule stoppedSlinky"
    unfolding settled_def simTime_minuteStep h d
    by (simp add: stoppedModule_def startModule_def at1_def stoppedSlinky_def)
qed

lemma int_1_2: "{1..2::int} = {1, 2}"
  by auto

text \<open>The temperature drop after two time steps of one minute, the first with 5 W/m.\<close>

lemma historyDrop_stopped:
  assumes h: "history g' d' = history stoppedModule d"
    and t: "currentSimTime g' = 1 / 30"
    and q: "QnSubHr d = 5 # replicate 960 0" and l: "LastHourN d = replicate 16 1"
    and a: "SubAGG d' = 15" "AGG d' = 192"
  shows "historyDrop g' d' = 5 * responseAt d' (1 / 60)"
proof -
  from h have n: "N g' = 3" and p: "prevTimeSteps g' = [1 / 30, 1 / 60] @ replicate 959 0"
    and q': "QnSubHr d' = 5 # replicate 960 0" and l': "LastHourN d' = replicate 16 1"
    using q l by (simp_all add: history_def deviceHistory_def stoppedModule_def)
  have i: "toInt (1 / 30) = 0" by (simp add: toInt_def)
  show ?thesis
    unfolding historyDrop_def Let_def pulseSum_def t i n a
    by (simp add: hrsPerMonth_def l' q' p at1_def int_1_2)
qed

lemma ln_minute: "ln (1 / 60 :: real) \<le> - 1"
proof -
  have "exp (1::real) \<le> 60" using exp_le by simp
  then have "1 \<le> ln (60::real)" by (subst ln_ge_iff) simp_all
  moreover have "ln (1 / 60 :: real) = - ln 60" by (simp add: ln_div)
  ultimately show ?thesis by simp
qed

lemma ln_borehole: "ln (27 / 4000000000 :: real) \<le> - 15"
proof -
  have "exp (15::real) = exp (of_nat 15 * 1)" by simp
  also have "\<dots> = exp 1 ^ 15" by (rule exp_of_nat_mult)
  also have "\<dots> \<le> 3 ^ 15" by (rule power_mono[OF exp_le]) simp
  also have "\<dots> \<le> (4000000000 / 27 :: real)" by simp
  finally have "exp (15::real) \<le> 4000000000 / 27" .
  then have "15 \<le> ln (4000000000 / 27 :: real)" by (subst ln_ge_iff) simp_all
  moreover have "ln (27 / 4000000000 :: real) = - ln (4000000000 / 27)"
    by (simp add: ln_div)
  ultimately show ?thesis by simp
qed

lemma stopped_call:
  assumes gatc: "\<And>d. deviceHistory (gatc d) = deviceHistory d"
    and hxr: "\<And>d. deviceHistory (hxr minuteStep d) = deviceHistory d"
    and gatc': "\<And>d. gTable (gatc d) = gTable d"
    and hxr': "\<And>d. gTable (hxr minuteStep d) = gTable d"
    and s: "settled minuteStep stoppedModule d"
    and q: "QnSubHr d = 5 # replicate 960 0" and l: "LastHourN d = replicate 16 1"
    and res: "calcGroundHeatExchanger cgf gatc hxr minuteStep (stoppedModule, d) = (g', d')"
    and a: "SubAGG d' = 15" "AGG d' = 192"
  shows "historyDrop g' d' = 5 * responseAt d' (1 / 60)" and "gTable d' = gTable d"
proof -
  have t: "0 < simTime minuteStep" by (simp add: simTime_minuteStep)
  have h: "history g' d' = history stoppedModule d"
    using settled_call_keeps_history[where hxr=hxr and ex=minuteStep and gatc=gatc and cgf=cgf,
        OF gatc hxr t s] res by simp
  have c: "currentSimTime g' = 1 / 30"
    using currentSimTime_call[OF t, of cgf gatc hxr stoppedModule d] res
    by (simp add: simTime_minuteStep)
  show "historyDrop g' d' = 5 * responseAt d' (1 / 60)"
    by (rule historyDrop_stopped[OF h c q l a])
  have f: "\<not> firstTime stoppedModule" by (simp add: stoppedModule_def)
  show "gTable d' = gTable d"
    using call_keeps_table[where gatc=gatc and hxr=hxr and ex=minuteStep and cgf=cgf
        and g=stoppedModule and d=d, OF gatc' hxr'] res f by simp
qed

theorem zero_flow_bypass_witness:
  "0 < simTime minuteStep \<and> massFlowRate stoppedVert \<le> 0 \<and> massFlowRate stoppedSlinky \<le> 0
   \<and> (case GLHEVert_calcGroundHeatExchanger minuteStep (stoppedModule, stoppedVert) of (g', d') \<Rightarrow>
         QGLHE d' = 0 \<and> outletTemp d' = 20
         \<and> aveFluidTemp d' = 15 - 5 * ((ln (27 / 4000000000) + 15) / 10 * 2) / (2 * pi)
         \<and> boreholeTemp d' = 15 - 5 * ((ln (27 / 4000000000) + 15) / 10 * 2) / (2 * pi))
   \<and> (case GLHESlinky_calcGroundHeatExchanger minuteStep (stoppedModule, stoppedSlinky) of (g', d') \<Rightarrow>
         QGLHE d' = 0 \<and> outletTemp d' = 20
         \<and> aveFluidTemp d' = 15 - 5 * (2 * (ln (1 / 60) + 1) + 1) / (2 * pi * (6 / 5))
         \<and> boreholeTemp d' = 15 - 5 * (2 * (ln (1 / 60) + 1) + 1) / (2 * pi * (6 / 5)))"
proof -
  have t: "0 < simTime minuteStep" by (simp add: simTime_minuteStep)
  have fv: "massFlowRate stoppedVert \<le> 0"
    by (simp add: stoppedVert_def exampleVert_def blankVert_def)
  have fs: "massFlowRate stoppedSlinky \<le> 0"
    by (simp add: stoppedSlinky_def exampleSlinky_def blankSlinky_def)
  obtain gv dv where v: "GLHEVert_calcGroundHeatExchanger minuteStep (stoppedModule, stoppedVert) = (gv, dv)"
    by (cases "GLHEVert_calcGroundHeatExchanger minuteStep (stoppedModule, stoppedVert)")
  obtain gs ds where s: "GLHESlinky_calcGroundHeatExchanger minuteStep (stoppedModule, stoppedSlinky) = (gs, ds)"
    by (cases "GLHESlinky_calcGroundHeatExchanger minuteStep (stoppedModule, stoppedSlinky)")
  note th = zero_flow_bypass[OF t fv fs, of stoppedModule, unfolded v s, simplified]
  have node: "NodeTemp stoppedModule (inletNodeNum stoppedVert) = 20"
    "NodeTemp stoppedModule (inletNodeNum stoppedSlinky) = 20"
    by (simp_all add: stoppedModule_def startModule_def)
  \<comment> \<open>the borehole\<close>
  have sv: "settings dv = (tempGround stoppedVert, kGround stoppedVert, SubAGG stoppedVert,
        AGG stoppedVert,
        (boreholeLength stoppedVert)\<^sup>2 / (9.0 * diffusivityGround stoppedVert) / SecInHour / 8760.0 * 8760.0,
        NodeTemp stoppedModule (inletNodeNum stoppedVert))"
    by (rule zero_flow_vertical(6)[OF t fv v])
  have pv: "tempGround stoppedVert = 15" "kGround stoppedVert = 1" "SubAGG stoppedVert = 15"
    "AGG stoppedVert = 192"
    "(boreholeLength stoppedVert)\<^sup>2 / (9.0 * diffusivityGround stoppedVert) / SecInHour / 8760.0 * 8760.0
       = 200000000000 / 81000"
    by (simp_all add: stoppedVert_def exampleVert_def blankVert_def SecInHour_def)
  from sv have av: "SubAGG dv = 15" "AGG dv = 192" "kGround dv = 1"
    "timeSSFactor dv = 200000000000 / 81000"
    unfolding pv by (simp_all add: settings_def)
  note cv = stopped_call[OF GLHEVert_virtuals_history(1) GLHEVert_virtuals_history(2)
      gTable_virtuals(1) gTable_virtuals(2) settled_stopped(1) _ _
      v[unfolded GLHEVert_calcGroundHeatExchanger_def] av(1,2)]
  have hv: "historyDrop gv dv = 5 * responseAt dv (1 / 60)" and tv: "gTable dv = gTable stoppedVert"
    by (rule cv; simp add: stoppedVert_def)+
  have iv: "interpGFunc dv = interpGFunc stoppedVert"
    using tv by (intro interpGFunc_cong) (simp_all add: gTable_def)
  have argv: "(1 / 60) / (200000000000 / 81000) = (27 / 4000000000 :: real)" by simp
  have gv: "interpGFunc stoppedVert (ln (27 / 4000000000)) = (ln (27 / 4000000000) + 15) / 10 * 2"
    using ln_borehole
    by (simp add: interpGFunc_def Let_def stoppedVert_def exampleVert_def at1_def)
  have rv: "responseAt dv (1 / 60) = ((ln (27 / 4000000000) + 15) / 10 * 2) / (2 * pi)"
    unfolding responseAt_def av iv argv gv by simp
  \<comment> \<open>the slinky\<close>
  have ss: "settings ds = (tempGround stoppedSlinky, kGround stoppedSlinky, SubAGG stoppedSlinky,
        AGG stoppedSlinky, 1.0, NodeTemp stoppedModule (inletNodeNum stoppedSlinky))"
    by (rule zero_flow_slinky(6)[OF t fs s])
  have ps: "tempGround stoppedSlinky = 15" "kGround stoppedSlinky = 6 / 5" "SubAGG stoppedSlinky = 15"
    "AGG stoppedSlinky = 192"
    by (simp_all add: stoppedSlinky_def exampleSlinky_def blankSlinky_def)
  from ss have as: "SubAGG ds = 15" "AGG ds = 192" "kGround ds = 6 / 5" "timeSSFactor ds = 1"
    unfolding ps by (simp_all add: settings_def)
  note cs = stopped_call[OF GLHESlinky_virtuals_history(1) GLHESlinky_virtuals_history(2)
      gTable_virtuals(3) gTable_virtuals(4) settled_stopped(2) _ _
      s[unfolded GLHESlinky_calcGroundHeatExchanger_def] as(1,2)]
  have hs: "historyDrop gs ds = 5 * responseAt ds (1 / 60)" and ts: "gTable ds = gTable stoppedSlinky"
    by (rule cs; simp add: stoppedSlinky_def)+
  have isl: "interpGFunc ds = interpGFunc stoppedSlinky"
    using ts by (intro interpGFunc_cong) (simp_all add: gTable_def)
  have gs: "interpGFunc stoppedSlinky (ln (1 / 60)) = 2 * (ln (1 / 60) + 1) + 1"
    using ln_minute
    by (simp add: interpGFunc_def Let_def stoppedSlinky_def at1_def)
  have args: "(1 / 60) / 1 = (1 / 60 :: real)" by simp
  have rs: "responseAt ds (1 / 60) = (2 * (ln (1 / 60) + 1) + 1) / (2 * pi * (6 / 5))"
    unfolding responseAt_def as isl args gs by simp
  show ?thesis
    unfolding v s using th t fv fs
    by (simp add: node pv ps hv hs rv rs)
qed

subsection \<open>Sums of periodic functions\<close>

lemma sum_int_last:
  fixes f :: "int \<Rightarrow> real"
  assumes "a \<le> b + 1"
  shows "(\<Sum>i = a..b + 1. f i) = (\<Sum>i = a..b. f i) + f (b + 1)"
proof -
  have "{a..b + 1} = insert (b + 1) {a..b}" using assms by auto
  then show ?thesis by simp
qed

lemma sum_int_first:
  fixes f :: "int \<Rightarrow> real"
  assumes "a \<le> b"
  shows "(\<Sum>i = a..b. f i) = f a + (\<Sum>i = a + 1..b. f i)"
proof -
  have "{a..b} = insert a {a + 1..b}" using assms by auto
  then show ?thesis by simp
qed

lemma periodic_shift:
  fixes F :: "int \<Rightarrow> real"
  assumes p: "\<And>k. F (k + M) = F k"
  shows "F (k + n * M) = F k"
proof (induction n rule: int_induct[where k=0])
  case base
  show ?case by simp
next
  case (step1 i)
  have "F (k + (i + 1) * M) = F ((k + i * M) + M)" by (simp add: algebra_simps)
  then show ?case using p step1 by simp
next
  case (step2 i)
  have "F (k + (i - 1) * M) = F ((k + (i - 1) * M) + M)" using p by simp
  also have "(k + (i - 1) * M) + M = k + i * M" by (simp add: algebra_simps)
  finally show ?case using step2 by simp
qed

lemma periodic_mod:
  fixes F :: "int \<Rightarrow> real"
  assumes p: "\<And>k. F (k + M) = F k"
  shows "F (k mod M) = F k"
proof -
  have "k mod M = k + (- (k div M)) * M" by (simp add: minus_div_mult_eq_mod[symmetric])
  then show ?thesis using periodic_shift[of F M k "- (k div M)", OF p] by simp
qed

lemma residues_sum:
  fixes F :: "int \<Rightarrow> real"
  assumes M: "0 < M" and p: "\<And>k. F (k + M) = F k"
  shows "(\<Sum>i = a..a + M - 1. F i) = (\<Sum>r = 0..M - 1. F r)"
proof (rule sum.reindex_bij_witness[where i="\<lambda>r. a + (r - a) mod M" and j="\<lambda>i. i mod M"])
  fix i assume "i \<in> {a..a + M - 1}"
  then have r: "0 \<le> i - a" "i - a < M" by auto
  have "(i mod M - a) mod M = (i - a) mod M" by (simp add: mod_diff_left_eq)
  also have "\<dots> = i - a" using r by simp
  finally show "a + (i mod M - a) mod M = i" by simp
  show "i mod M \<in> {0..M - 1}" using M by simp
  show "F (i mod M) = F i" by (rule periodic_mod[where F=F and M=M, OF p])
next
  fix r assume "r \<in> {0..M - 1}"
  then have r: "0 \<le> r" "r < M" by auto
  have "(a + (r - a) mod M) mod M = (a + (r - a)) mod M" by (simp add: mod_add_right_eq)
  then show "(a + (r - a) mod M) mod M = r" using r by simp
  have "0 \<le> (r - a) mod M" "(r - a) mod M < M" using M by simp_all
  then show "a + (r - a) mod M \<in> {a..a + M - 1}" by simp
qed

lemma reflect_sum:
  fixes F :: "int \<Rightarrow> real"
  assumes M: "0 < M" and p: "\<And>k. F (k + M) = F k"
  shows "(\<Sum>i = a..a + M - 1. F (c - i)) = (\<Sum>i = a..a + M - 1. F i)"
proof -
  have q: "F (k - M) = F k" for k using p[of "k - M"] by simp
  have p': "\<And>k. F (c - (k + M)) = F (c - k)"
  proof -
    fix k
    have "F (c - (k + M)) = F ((c - k) - M)" by (simp add: algebra_simps)
    then show "F (c - (k + M)) = F (c - k)" using q by simp
  qed
  have "(\<Sum>i = a..a + M - 1. F (c - i)) = (\<Sum>r = 0..M - 1. F (c - r))"
    by (rule residues_sum[where F="\<lambda>i. F (c - i)" and M=M, OF M p'])
  also have "\<dots> = (\<Sum>r = 0..M - 1. F r)"
  proof -
    have inv: "(c - (c - r) mod M) mod M = r" if "r \<in> {0..M - 1}" for r
    proof -
      from that have r: "0 \<le> r" "r < M" by auto
      have "(c - (c - r) mod M) mod M = (c - (c - r)) mod M" by (simp add: mod_diff_right_eq)
      then show ?thesis using r by simp
    qed
    have mem: "(c - r) mod M \<in> {0..M - 1}" for r using M by simp
    have per: "F ((c - r) mod M) = F (c - r)" for r
      by (rule periodic_mod[where F=F and M=M, OF p])
    show ?thesis
      by (rule sum.reindex_bij_witness[where i="\<lambda>r. (c - r) mod M" and j="\<lambda>r. (c - r) mod M"])
         (simp_all only: inv mem per)
  qed
  also have "\<dots> = (\<Sum>i = a..a + M - 1. F i)"
    by (rule residues_sum[where F=F and M=M, OF M p, symmetric])
  finally show ?thesis .
qed

text \<open>On a periodic function the two end nodes are one node.\<close>

lemma simpsonNodes_periodic:
  assumes M: "1 \<le> M" and p: "\<And>k. F (k + 2 * M) = F k"
  shows "simpsonNodes M F = 4 * (\<Sum>i = 1..1 + M - 1. F (2 * i - 1)) + 2 * (\<Sum>i = 0..0 + M - 1. F (2 * i))"
proof -
  have e: "F (2 * M) = F 0" using p[of 0] by simp
  have "(\<Sum>i = 0..0 + M - 1. F (2 * i)) = F 0 + (\<Sum>i = 1..M - 1. F (2 * i))"
    using sum_int_first[of 0 "M - 1" "\<lambda>i. F (2 * i)"] M by simp
  then show ?thesis unfolding simpsonNodes_def e by simp
qed

lemma simpsonNodes_reflect:
  assumes M: "1 \<le> M" and p: "\<And>k. F (k + 2 * M) = F k"
  shows "simpsonNodes M (\<lambda>k. F (2 * s - k)) = simpsonNodes M F"
proof -
  have M0: "0 < M" using M by simp
  have q: "F (k - 2 * M) = F k" for k using p[of "k - 2 * M"] by simp
  have p': "\<And>k. F (2 * s - (k + 2 * M)) = F (2 * s - k)"
  proof -
    fix k
    have "F (2 * s - (k + 2 * M)) = F ((2 * s - k) - 2 * M)" by (simp add: algebra_simps)
    then show "F (2 * s - (k + 2 * M)) = F (2 * s - k)" using q by simp
  qed
  have po: "\<And>i. F (2 * (i + M) - 1) = F (2 * i - 1)"
  proof -
    fix i
    have "F (2 * (i + M) - 1) = F ((2 * i - 1) + 2 * M)" by (simp add: algebra_simps)
    then show "F (2 * (i + M) - 1) = F (2 * i - 1)" using p by simp
  qed
  have pe: "\<And>i. F (2 * (i + M)) = F (2 * i)"
  proof -
    fix i
    have "F (2 * (i + M)) = F (2 * i + 2 * M)" by (simp add: algebra_simps)
    then show "F (2 * (i + M)) = F (2 * i)" using p by simp
  qed
  have odd: "(\<Sum>i = 1..1 + M - 1. F (2 * s - (2 * i - 1))) = (\<Sum>i = 1..1 + M - 1. F (2 * i - 1))"
  proof -
    have "(\<Sum>i = 1..1 + M - 1. F (2 * s - (2 * i - 1)))
            = (\<Sum>i = 1..1 + M - 1. F (2 * ((s + 1) - i) - 1))"
      by (intro sum.cong refl arg_cong[where f=F]) simp
    also have "\<dots> = (\<Sum>i = 1..1 + M - 1. F (2 * i - 1))"
      by (rule reflect_sum[where F="\<lambda>i. F (2 * i - 1)" and M=M, OF M0 po])
    finally show ?thesis .
  qed
  have even: "(\<Sum>i = 0..0 + M - 1. F (2 * s - 2 * i)) = (\<Sum>i = 0..0 + M - 1. F (2 * i))"
  proof -
    have "(\<Sum>i = 0..0 + M - 1. F (2 * s - 2 * i)) = (\<Sum>i = 0..0 + M - 1. F (2 * (s - i)))"
      by (intro sum.cong refl arg_cong[where f=F]) simp
    also have "\<dots> = (\<Sum>i = 0..0 + M - 1. F (2 * i))"
      by (rule reflect_sum[where F="\<lambda>i. F (2 * i)" and M=M, OF M0 pe])
    finally show ?thesis .
  qed
  show ?thesis
    unfolding simpsonNodes_periodic[where F=F and M=M, OF M p]
      simpsonNodes_periodic[where F="\<lambda>k. F (2 * s - k)" and M=M, OF M p']
    using odd even by simp
qed

text \<open>
  Simpson's rule over a full period does not change when the function is reflected at 0 or,
  if the number of intervals is a multiple of four, at \<open>\<pi>\<close>.
\<close>

lemma simpsonRule_nodes:
  assumes M: "1 \<le> M"
  shows "simpsonRule (2 * M + 1) 0 (2 * pi) f
           = (pi / of_int M / 3) * simpsonNodes M (\<lambda>k. f (of_int k * (pi / of_int M)))"
proof -
  have h: "(2 * pi - 0) / of_int (2 * M + 1 - 1) = pi / of_int M" using M by simp
  have d: "(2 * M + 1 - 1) div 2 = M" by simp
  show ?thesis unfolding simpsonRule_def Let_def h d by simp
qed

lemma node_periodic:
  assumes M: "1 \<le> M" and p: "\<And>x. f (x + 2 * pi) = (f x :: real)"
  shows "f (of_int (k + 2 * M) * (pi / of_int M)) = f (of_int k * (pi / of_int M))"
proof -
  have "of_int (k + 2 * M) * (pi / of_int M) = of_int k * (pi / of_int M) + 2 * pi"
    using M by (simp add: field_simps)
  then show ?thesis using p by simp
qed

lemma simpsonRule_reflect_zero:
  assumes M: "1 \<le> M" and p: "\<And>x. f (x + 2 * pi) = (f x :: real)"
  shows "simpsonRule (2 * M + 1) 0 (2 * pi) (\<lambda>x. f (- x)) = simpsonRule (2 * M + 1) 0 (2 * pi) f"
proof -
  define F where "F = (\<lambda>k. f (of_int k * (pi / of_int M)))"
  have per: "\<And>k. F (k + 2 * M) = F k" unfolding F_def by (rule node_periodic[where f=f and M=M, OF M p])
  have "simpsonNodes M (\<lambda>k. f (- (of_int k * (pi / of_int M)))) = simpsonNodes M (\<lambda>k. F (2 * 0 - k))"
    by (simp add: F_def)
  also have "\<dots> = simpsonNodes M F"
    by (rule simpsonNodes_reflect[where F=F and M=M, OF M per])
  finally show ?thesis unfolding simpsonRule_nodes[OF M] F_def by simp
qed

lemma simpsonRule_reflect_pi:
  assumes q: "1 \<le> q" and p: "\<And>x. f (x + 2 * pi) = (f x :: real)"
  shows "simpsonRule (4 * q + 1) 0 (2 * pi) (\<lambda>x. f (pi - x)) = simpsonRule (4 * q + 1) 0 (2 * pi) f"
proof -
  define M where "M = 2 * q"
  have M: "1 \<le> M" using q by (simp add: M_def)
  have n: "4 * q + 1 = 2 * M + 1" by (simp add: M_def)
  define F where "F = (\<lambda>k. f (of_int k * (pi / of_int M)))"
  have per: "\<And>k. F (k + 2 * M) = F k" unfolding F_def by (rule node_periodic[where f=f and M=M, OF M p])
  have a: "pi - of_int k * (pi / of_int M) = of_int (2 * q - k) * (pi / of_int M)" for k
    using q by (simp add: M_def field_simps)
  have "simpsonNodes M (\<lambda>k. f (pi - of_int k * (pi / of_int M))) = simpsonNodes M (\<lambda>k. F (2 * q - k))"
    unfolding a by (simp add: F_def)
  also have "\<dots> = simpsonNodes M F"
    by (rule simpsonNodes_reflect[where F=F and M=M, OF M per])
  finally show ?thesis unfolding n simpsonRule_nodes[OF M] F_def by simp
qed

lemma simpsonRule_cong:
  assumes "\<And>x. f x = g x"
  shows "simpsonRule n a b f = simpsonRule n a b g"
  using assms by (simp add: simpsonRule_def simpsonNodes_def)

subsection \<open>The double integral of the near field\<close>

lemma simpsonTerm_inner:
  assumes "1 < j" "j < K"
  shows "simpsonTerm j (of_int K) f = (if even j then 4 * f else 2 * f)"
  using assms by (simp add: simpsonTerm_def isEven_def even_iff_mod_2_eq_zero)

lemma simpsonTerm_ends:
  "simpsonTerm 1 K f = f" "simpsonTerm K' (of_int K') f = f"
  by (simp_all add: simpsonTerm_def)

text \<open>The loop of \<^verbatim>\<open>integral\<close> and of \<^verbatim>\<open>doubleIntegral\<close> is Simpson's rule.\<close>

lemma simpson_loop:
  assumes "1 \<le> M"
  shows "(\<Sum>j = 1..2 * M + 1. simpsonTerm j (of_int (2 * M + 1)) (F (j - 1))) = simpsonNodes M F"
  using assms
proof (induction M rule: int_ge_induct)
  case base
  have s: "{1..2 * 1 + 1 :: int} = {1, 2, 3}" by auto
  have t: "simpsonTerm 2 3 (F 1) = 4 * F 1"
    by (simp add: simpsonTerm_def isEven_def)
  have e: "simpsonTerm 3 3 (F 2) = F 2"
    by (simp add: simpsonTerm_def)
  show ?case unfolding s by (simp add: simpsonTerm_ends(1) t e simpsonNodes_def)
next
  case (step M)
  define K where "K = 2 * M + 1"
  have K: "2 * (M + 1) + 1 = K + 1 + 1" by (simp add: K_def)
  have inner: "(\<Sum>j = 1..K - 1. simpsonTerm j (of_int (K + 1 + 1)) (F (j - 1)))
                 = (\<Sum>j = 1..K - 1. simpsonTerm j (of_int K) (F (j - 1)))"
  proof (rule sum.cong[OF refl])
    fix j assume "j \<in> {1..K - 1}"
    then have j: "1 \<le> j" "j < K" by auto
    show "simpsonTerm j (of_int (K + 1 + 1)) (F (j - 1)) = simpsonTerm j (of_int K) (F (j - 1))"
    proof (cases "j = 1")
      case True
      then show ?thesis by (simp add: simpsonTerm_ends(1))
    next
      case False
      then have "1 < j" using j by simp
      then show ?thesis using j simpsonTerm_inner[of j K] simpsonTerm_inner[of j "K + 1 + 1"] by simp
    qed
  qed
  have IH': "(\<Sum>j = 1..K. simpsonTerm j (of_int K) (F (j - 1))) = simpsonNodes M F"
    using step.IH unfolding K_def .
  have kM: "K - 1 = 2 * M" by (simp add: K_def)
  have endK: "simpsonTerm K (of_int K) (F (K - 1)) = F (K - 1)" by (rule simpsonTerm_ends(2))
  have old: "(\<Sum>j = 1..K - 1. simpsonTerm j (of_int K) (F (j - 1))) = simpsonNodes M F - F (2 * M)"
  proof -
    have le: "1 \<le> K - 1 + 1" using step.hyps by (simp add: K_def)
    have "(\<Sum>j = 1..K - 1 + 1. simpsonTerm j (of_int K) (F (j - 1)))
            = (\<Sum>j = 1..K - 1. simpsonTerm j (of_int K) (F (j - 1))) + simpsonTerm (K - 1 + 1) (of_int K) (F (K - 1 + 1 - 1))"
      by (rule sum_int_last[OF le])
    then have "(\<Sum>j = 1..K. simpsonTerm j (of_int K) (F (j - 1)))
            = (\<Sum>j = 1..K - 1. simpsonTerm j (of_int K) (F (j - 1))) + simpsonTerm K (of_int K) (F (K - 1))"
      by (simp only: diff_add_cancel)
    then have "simpsonNodes M F
            = (\<Sum>j = 1..K - 1. simpsonTerm j (of_int K) (F (j - 1))) + F (K - 1)"
      unfolding IH' endK .
    then show ?thesis unfolding kM by linarith
  qed
  have eK: "even (K + 1)" "\<not> even K" by (simp_all add: K_def)
  have tK: "simpsonTerm K (of_int (K + 1 + 1)) (F (K - 1)) = 2 * F (K - 1)"
    using simpsonTerm_inner[of K "K + 1 + 1" "F (K - 1)"] step.hyps eK by (simp add: K_def)
  have tK1: "simpsonTerm (K + 1) (of_int (K + 1 + 1)) (F K) = 4 * F K"
    using simpsonTerm_inner[of "K + 1" "K + 1 + 1" "F K"] step.hyps eK by (simp add: K_def)
  have tK2: "simpsonTerm (K + 1 + 1) (of_int (K + 1 + 1)) (F (K + 1)) = F (K + 1)"
    using simpsonTerm_ends(2)[of "K + 1 + 1" "F (K + 1)"] by simp
  have "(\<Sum>j = 1..K + 1 + 1. simpsonTerm j (of_int (K + 1 + 1)) (F (j - 1)))
      = (\<Sum>j = 1..K - 1. simpsonTerm j (of_int (K + 1 + 1)) (F (j - 1)))
        + simpsonTerm K (of_int (K + 1 + 1)) (F (K - 1))
        + simpsonTerm (K + 1) (of_int (K + 1 + 1)) (F K)
        + simpsonTerm (K + 1 + 1) (of_int (K + 1 + 1)) (F (K + 1))"
  proof -
    have a: "(\<Sum>j = 1..K + 1 + 1. simpsonTerm j (of_int (K + 1 + 1)) (F (j - 1)))
        = (\<Sum>j = 1..K + 1. simpsonTerm j (of_int (K + 1 + 1)) (F (j - 1)))
          + simpsonTerm (K + 1 + 1) (of_int (K + 1 + 1)) (F (K + 1 + 1 - 1))"
      by (rule sum_int_last) (use step.hyps in \<open>simp add: K_def\<close>)
    have b: "(\<Sum>j = 1..K + 1. simpsonTerm j (of_int (K + 1 + 1)) (F (j - 1)))
        = (\<Sum>j = 1..K. simpsonTerm j (of_int (K + 1 + 1)) (F (j - 1)))
          + simpsonTerm (K + 1) (of_int (K + 1 + 1)) (F (K + 1 - 1))"
      by (rule sum_int_last) (use step.hyps in \<open>simp add: K_def\<close>)
    have c: "(\<Sum>j = 1..K - 1 + 1. simpsonTerm j (of_int (K + 1 + 1)) (F (j - 1)))
        = (\<Sum>j = 1..K - 1. simpsonTerm j (of_int (K + 1 + 1)) (F (j - 1)))
          + simpsonTerm (K - 1 + 1) (of_int (K + 1 + 1)) (F (K - 1 + 1 - 1))"
      by (rule sum_int_last) (use step.hyps in \<open>simp add: K_def\<close>)
    note a' = a[unfolded add_diff_cancel_right']
    note b' = b[unfolded add_diff_cancel_right']
    note c' = c[unfolded diff_add_cancel]
    show ?thesis unfolding a' b' c' ..
  qed
  also have "\<dots> = simpsonNodes M F - F (2 * M) + 2 * F (K - 1) + 4 * F K + F (K + 1)"
    unfolding inner old tK tK1 tK2 ..
  also have "\<dots> = simpsonNodes (M + 1) F"
  proof -
    have o: "(\<Sum>i = 1..M + 1. F (2 * i - 1)) = (\<Sum>i = 1..M. F (2 * i - 1)) + F (2 * (M + 1) - 1)"
      by (rule sum_int_last) (use step.hyps in simp)
    have e: "(\<Sum>i = 1..M - 1 + 1. F (2 * i)) = (\<Sum>i = 1..M - 1. F (2 * i)) + F (2 * (M - 1 + 1))"
      by (rule sum_int_last) (use step.hyps in simp)
    show ?thesis unfolding simpsonNodes_def using o e by (simp add: K_def algebra_simps)
  qed
  finally show ?case unfolding K .
qed

lemma zero_decimal: "(0.0::real) = 0"
  by simp

lemma integral_simpson:
  assumes M: "1 \<le> M"
  shows "integral d m n m1 n1 t eta (of_int (2 * M + 1))
           = simpsonRule (2 * M + 1) 0 (2 * pi)
               (\<lambda>theta. nearFieldResponseFunction d m n m1 n1 eta theta t)"
proof -
  define hc where "hc = (2 * pi - 0) / (of_int (2 * M + 1) - 1 :: real)"
  define F where "F = (\<lambda>k::int. nearFieldResponseFunction d m n m1 n1 eta (0 + of_int k * hc) t)"
  have fl: "\<lfloor>of_int (2 * M + 1) :: real\<rfloor> = 2 * M + 1" by (rule floor_of_int)
  have 1: "integral d m n m1 n1 t eta (of_int (2 * M + 1))
      = (hc / 3) * fst (forSum 1 (2 * M + 1) (\<lambda>j. simpsonTerm j (of_int (2 * M + 1)) (F (j - 1))) 0)"
    unfolding integral_def Let_def zero_decimal fl hc_def F_def ..
  have 2: "fst (forSum 1 (2 * M + 1) (\<lambda>j. simpsonTerm j (of_int (2 * M + 1)) (F (j - 1))) 0)
      = simpsonNodes M F"
    unfolding forSum_sum by (rule simpson_loop[OF M])
  have 3: "hc = pi / of_int M" using M by (simp add: hc_def)
  have 4: "F = (\<lambda>k. nearFieldResponseFunction d m n m1 n1 eta (of_int k * (pi / of_int M)) t)"
    by (simp add: F_def 3)
  show ?thesis unfolding 1 2 simpsonRule_nodes[OF M] unfolding 3 4 ..
qed

lemma doubleIntegral_simpson:
  assumes a: "1 \<le> a" and b: "1 \<le> b"
  shows "doubleIntegral d m n m1 n1 t (2 * a + 1) (2 * b + 1)
           = simpsonRule (2 * a + 1) 0 (2 * pi) (\<lambda>eta.
               simpsonRule (2 * b + 1) 0 (2 * pi)
                 (\<lambda>theta. nearFieldResponseFunction d m n m1 n1 eta theta t))"
proof -
  define hc where "hc = (2 * pi - 0) / (of_int (2 * a + 1 - 1) :: real)"
  define F where "F = (\<lambda>k::int. integral d m n m1 n1 t (0 + of_int k * hc) (of_int (2 * b + 1)))"
  have 1: "doubleIntegral d m n m1 n1 t (2 * a + 1) (2 * b + 1)
      = (hc / 3) * fst (forSum 1 (2 * a + 1) (\<lambda>j. simpsonTerm j (of_int (2 * a + 1)) (F (j - 1))) 0)"
    unfolding doubleIntegral_def Let_def zero_decimal hc_def F_def ..
  have 2: "fst (forSum 1 (2 * a + 1) (\<lambda>j. simpsonTerm j (of_int (2 * a + 1)) (F (j - 1))) 0)
      = simpsonNodes a F"
    unfolding forSum_sum by (rule simpson_loop[OF a])
  have 3: "hc = pi / of_int a" using a by (simp add: hc_def)
  have 4: "F = (\<lambda>k. simpsonRule (2 * b + 1) 0 (2 * pi)
                 (\<lambda>theta. nearFieldResponseFunction d m n m1 n1 (of_int k * (pi / of_int a)) theta t))"
    unfolding F_def 3 integral_simpson[OF b] add_0 ..
  show ?thesis unfolding 1 2 simpsonRule_nodes[OF a] unfolding 3 4 ..
qed

lemma sq_sum3: "((a::real) + b - (c + e))\<^sup>2 = ((a - c) + b - e)\<^sup>2"
  by (simp add: algebra_simps)

lemma distance_separation:
  "distance d m n m1 n1 eta theta
     = separation d (at1 (X0 d) n - at1 (X0 d) n1) (at1 (Y0 d) m - at1 (Y0 d) m1) eta theta"
  unfolding distance_def separation_def Let_def sq_sum3
  by (simp add: algebra_simps)

lemma distanceToFictRing_separation:
  "distanceToFictRing d m n m1 n1 eta theta
     = fictSeparation d (at1 (X0 d) n - at1 (X0 d) n1) (at1 (Y0 d) m - at1 (Y0 d) m1) eta theta"
  unfolding distanceToFictRing_def fictSeparation_def Let_def sq_sum3
  by (simp add: algebra_simps)

lemma nearField_offset:
  "nearFieldResponseFunction d m n m1 n1 eta theta t
     = nearFieldOffset d (at1 (X0 d) n - at1 (X0 d) n1) (at1 (Y0 d) m - at1 (Y0 d) m1) eta theta t"
  unfolding nearFieldResponseFunction_def nearFieldOffset_def Let_def
    distance_separation distanceToFictRing_separation ..

text \<open>Mirror images of the pair of rings, and full turns.\<close>

lemma sq_neg: "(a::real) = - b \<Longrightarrow> a\<^sup>2 = b\<^sup>2"
  by simp

lemma separation_flip_x:
  "separation d (- dx) dy eta theta = separation d dx dy (pi - eta) (pi - theta)"
proof -
  have a: "(- dx + cos theta * R - cos eta * Q)\<^sup>2 = (dx + - cos theta * R - - cos eta * Q)\<^sup>2"
    for R Q :: real
    by (rule sq_neg) simp
  show ?thesis unfolding separation_def Let_def cos_pi_minus sin_pi_minus a ..
qed

lemma fictSeparation_flip_x:
  "fictSeparation d (- dx) dy eta theta = fictSeparation d dx dy (pi - eta) (pi - theta)"
proof -
  have a: "(- dx + cos theta * R - cos eta * Q)\<^sup>2 = (dx + - cos theta * R - - cos eta * Q)\<^sup>2"
    for R Q :: real
    by (rule sq_neg) simp
  show ?thesis unfolding fictSeparation_def Let_def cos_pi_minus sin_pi_minus a ..
qed

lemma separation_flip_y:
  "separation d dx (- dy) eta theta
     = (if verticalConfig d then separation d dx dy eta theta
        else separation d dx dy (- eta) (- theta))"
proof -
  have a: "(- dy + sin theta * R - sin eta * Q)\<^sup>2 = (dy + - sin theta * R - - sin eta * Q)\<^sup>2"
    for R Q :: real
    by (rule sq_neg) simp
  have b: "(- (- dy))\<^sup>2 = (- dy)\<^sup>2" by simp
  show ?thesis
    unfolding separation_def Let_def cos_minus sin_minus a b by simp
qed

lemma fictSeparation_flip_y:
  "fictSeparation d dx (- dy) eta theta = fictSeparation d dx dy eta theta"
  unfolding fictSeparation_def Let_def by simp

lemma separation_periodic:
  "separation d dx dy (eta + 2 * pi) theta = separation d dx dy eta theta"
  "separation d dx dy eta (theta + 2 * pi) = separation d dx dy eta theta"
  unfolding separation_def Let_def by simp_all

lemma fictSeparation_periodic:
  "fictSeparation d dx dy (eta + 2 * pi) theta = fictSeparation d dx dy eta theta"
  "fictSeparation d dx dy eta (theta + 2 * pi) = fictSeparation d dx dy eta theta"
  unfolding fictSeparation_def Let_def by simp_all

lemma nearFieldOffset_flip_x:
  "nearFieldOffset d (- dx) dy eta theta t = nearFieldOffset d dx dy (pi - eta) (pi - theta) t"
  unfolding nearFieldOffset_def Let_def separation_flip_x fictSeparation_flip_x ..

lemma nearFieldOffset_flip_y:
  "nearFieldOffset d dx (- dy) eta theta t
     = (if verticalConfig d then nearFieldOffset d dx dy eta theta t
        else nearFieldOffset d dx dy (- eta) (- theta) t)"
  unfolding nearFieldOffset_def Let_def separation_flip_y fictSeparation_flip_y by simp

lemma nearFieldOffset_periodic:
  "nearFieldOffset d dx dy (eta + 2 * pi) theta t = nearFieldOffset d dx dy eta theta t"
  "nearFieldOffset d dx dy eta (theta + 2 * pi) t = nearFieldOffset d dx dy eta theta t"
  unfolding nearFieldOffset_def Let_def separation_periodic fictSeparation_periodic by (rule refl)+

text \<open>
  With 33 and 561 (or 1089) nodes, the double integral of the near field is the same for the
  four pairs of rings that are mirror images of each other.
\<close>

lemma offsetIntegral_flip_x:
  assumes p: "1 \<le> p" and q: "1 \<le> q"
  shows "offsetIntegral d t (- dx) dy (4 * p + 1) (4 * q + 1)
           = offsetIntegral d t dx dy (4 * p + 1) (4 * q + 1)"
proof -
  define H where "H = (\<lambda>eta. simpsonRule (4 * q + 1) 0 (2 * pi)
      (\<lambda>theta. nearFieldOffset d dx dy eta theta t))"
  have Hper: "\<And>x. H (x + 2 * pi) = H x"
    unfolding H_def nearFieldOffset_periodic ..
  have inner: "simpsonRule (4 * q + 1) 0 (2 * pi) (\<lambda>theta. nearFieldOffset d (- dx) dy eta theta t)
          = H (pi - eta)" for eta
    unfolding nearFieldOffset_flip_x H_def
    by (rule simpsonRule_reflect_pi[where f="\<lambda>theta. nearFieldOffset d dx dy (pi - eta) theta t", OF q])
       (rule nearFieldOffset_periodic(2))
  have "offsetIntegral d t (- dx) dy (4 * p + 1) (4 * q + 1)
      = simpsonRule (4 * p + 1) 0 (2 * pi) (\<lambda>eta. H (pi - eta))"
    unfolding offsetIntegral_def inner ..
  also have "\<dots> = simpsonRule (4 * p + 1) 0 (2 * pi) H"
    by (rule simpsonRule_reflect_pi[where f=H, OF p Hper])
  finally show ?thesis unfolding offsetIntegral_def H_def .
qed

lemma offsetIntegral_flip_y:
  assumes a: "1 \<le> a" and b: "1 \<le> b"
  shows "offsetIntegral d t dx (- dy) (2 * a + 1) (2 * b + 1)
           = offsetIntegral d t dx dy (2 * a + 1) (2 * b + 1)"
proof (cases "verticalConfig d")
  case True
  then show ?thesis unfolding offsetIntegral_def nearFieldOffset_flip_y by simp
next
  case False
  define H where "H = (\<lambda>eta. simpsonRule (2 * b + 1) 0 (2 * pi)
      (\<lambda>theta. nearFieldOffset d dx dy eta theta t))"
  have Hper: "\<And>x. H (x + 2 * pi) = H x"
    unfolding H_def nearFieldOffset_periodic ..
  have f: "nearFieldOffset d dx (- dy) eta theta t = nearFieldOffset d dx dy (- eta) (- theta) t"
    for eta theta
    unfolding nearFieldOffset_flip_y using False by simp
  have inner: "simpsonRule (2 * b + 1) 0 (2 * pi) (\<lambda>theta. nearFieldOffset d dx (- dy) eta theta t)
          = H (- eta)" for eta
    unfolding f H_def
    by (rule simpsonRule_reflect_zero[where f="\<lambda>theta. nearFieldOffset d dx dy (- eta) theta t", OF b])
       (rule nearFieldOffset_periodic(2))
  have "offsetIntegral d t dx (- dy) (2 * a + 1) (2 * b + 1)
      = simpsonRule (2 * a + 1) 0 (2 * pi) (\<lambda>eta. H (- eta))"
    unfolding offsetIntegral_def inner ..
  also have "\<dots> = simpsonRule (2 * a + 1) 0 (2 * pi) H"
    by (rule simpsonRule_reflect_zero[where f=H, OF a Hper])
  finally show ?thesis unfolding offsetIntegral_def H_def .
qed

lemma offsetIntegral_abs:
  assumes p: "1 \<le> p" and q: "1 \<le> q"
  shows "offsetIntegral d t dx dy (4 * p + 1) (4 * q + 1)
           = offsetIntegral d t \<bar>dx\<bar> \<bar>dy\<bar> (4 * p + 1) (4 * q + 1)"
proof -
  have n: "4 * p + 1 = 2 * (2 * p) + 1" "4 * q + 1 = 2 * (2 * q) + 1" by simp_all
  have p2: "1 \<le> 2 * p" and q2: "1 \<le> 2 * q" using p q by simp_all
  have y: "offsetIntegral d t x (- y) (4 * p + 1) (4 * q + 1)
             = offsetIntegral d t x y (4 * p + 1) (4 * q + 1)" for x y
    unfolding n by (rule offsetIntegral_flip_y[OF p2 q2])
  have x: "offsetIntegral d t (- x) y (4 * p + 1) (4 * q + 1)
             = offsetIntegral d t x y (4 * p + 1) (4 * q + 1)" for x y
    by (rule offsetIntegral_flip_x[OF p q])
  show ?thesis
  proof (cases "0 \<le> dx"; cases "0 \<le> dy")
    assume "0 \<le> dx" "0 \<le> dy"
    then show ?thesis by simp
  next
    assume a: "0 \<le> dx" "\<not> 0 \<le> dy"
    then have "\<bar>dx\<bar> = dx" "dy = - \<bar>dy\<bar>" by simp_all
    then show ?thesis using y[of dx "\<bar>dy\<bar>"] by simp
  next
    assume a: "\<not> 0 \<le> dx" "0 \<le> dy"
    then have "dx = - \<bar>dx\<bar>" "\<bar>dy\<bar> = dy" by simp_all
    then show ?thesis using x[of "\<bar>dx\<bar>" dy] by simp
  next
    assume a: "\<not> 0 \<le> dx" "\<not> 0 \<le> dy"
    then have e: "dx = - \<bar>dx\<bar>" "dy = - \<bar>dy\<bar>" by simp_all
    have "offsetIntegral d t (- \<bar>dx\<bar>) (- \<bar>dy\<bar>) (4 * p + 1) (4 * q + 1)
            = offsetIntegral d t \<bar>dx\<bar> \<bar>dy\<bar> (4 * p + 1) (4 * q + 1)"
      unfolding x y ..
    then show ?thesis using e by simp
  qed
qed

lemma doubleIntegral_offset:
  assumes a: "1 \<le> a" and b: "1 \<le> b"
  shows "doubleIntegral d m n m1 n1 t (2 * a + 1) (2 * b + 1)
           = offsetIntegral d t (at1 (X0 d) n - at1 (X0 d) n1) (at1 (Y0 d) m - at1 (Y0 d) m1)
               (2 * a + 1) (2 * b + 1)"
  unfolding doubleIntegral_simpson[OF a b] offsetIntegral_def nearField_offset ..

subsection \<open>The loops over the rings\<close>

lemma fieldResponse_loops:
  "fieldResponse d t numRC numLC
     = snd (forLoop 1 numRC (sourceLoop d t numRC numLC) (\<lambda>ij. - 1.0, 0))"
  unfolding fieldResponse_def sourceLoop_def trenchLoop_def ringLoop_def pairStep_def ..

lemma ringKernel_code:
  "ringKernel d t m n m1 n1 =
    (if distToCenter d m n m1 n1 \<le> 2.5 + coilDiameter d then
       doubleIntegral d m n m1 n1 t 33 (if m1 = m \<and> n1 = n then 1089 else 561)
     else if distToCenter d m n m1 n1 > 10 + coilDiameter d then 0
     else midFieldResponseFunction d m n m1 n1 t)"
proof -
  have a: "doubleIntegral d m n m1 n1 t 33 1089
      = simpsonRule 33 0 (2 * pi) (\<lambda>eta. simpsonRule 1089 0 (2 * pi)
           (\<lambda>theta. nearFieldResponseFunction d m n m1 n1 eta theta t))"
    using doubleIntegral_simpson[of 16 544 d m n m1 n1 t] by simp
  have b: "doubleIntegral d m n m1 n1 t 33 561
      = simpsonRule 33 0 (2 * pi) (\<lambda>eta. simpsonRule 561 0 (2 * pi)
           (\<lambda>theta. nearFieldResponseFunction d m n m1 n1 eta theta t))"
    using doubleIntegral_simpson[of 16 280 d m n m1 n1 t] by simp
  show ?thesis
  proof (cases "m1 = m \<and> n1 = n")
    case True
    show ?thesis unfolding ringKernel_def if_P[OF True] a b ..
  next
    case False
    show ?thesis unfolding ringKernel_def if_not_P[OF False] a b ..
  qed
qed

lemma ringKernel_offset:
  "ringKernel d t m n m1 n1 =
    (if distToCenter d m n m1 n1 \<le> 2.5 + coilDiameter d then
       offsetIntegral d t (at1 (X0 d) n - at1 (X0 d) n1) (at1 (Y0 d) m - at1 (Y0 d) m1)
         33 (if m1 = m \<and> n1 = n then 1089 else 561)
     else if distToCenter d m n m1 n1 > 10 + coilDiameter d then 0
     else midFieldResponseFunction d m n m1 n1 t)"
  unfolding ringKernel_def offsetIntegral_def nearField_offset ..

lemma midField_by_distance:
  assumes "distToCenter d m n m1 n1 = distToCenter d m' n' m1' n1'"
  shows "midFieldResponseFunction d m n m1 n1 t = midFieldResponseFunction d m' n' m1' n1' t"
  unfolding midFieldResponseFunction_def Let_def assms ..

text \<open>Two pairs of rings with the same offset have the same response.\<close>

lemma ringKernel_by_offset:
  assumes placed: "ringsPlaced d"
    and r: "m \<in> {1..numTrenches d}" "n \<in> {1..numCoils d}"
           "m1 \<in> {1..numTrenches d}" "n1 \<in> {1..numCoils d}"
    and r': "m' \<in> {1..numTrenches d}" "n' \<in> {1..numCoils d}"
            "m1' \<in> {1..numTrenches d}" "n1' \<in> {1..numCoils d}"
    and o: "\<bar>m - m1\<bar> = \<bar>m' - m1'\<bar>" "\<bar>n - n1\<bar> = \<bar>n' - n1'\<bar>"
  shows "ringKernel d t m n m1 n1 = ringKernel d t m' n' m1' n1'"
proof -
  define dx where "dx = at1 (X0 d) n - at1 (X0 d) n1"
  define dy where "dy = at1 (Y0 d) m - at1 (Y0 d) m1"
  define dx' where "dx' = at1 (X0 d) n' - at1 (X0 d) n1'"
  define dy' where "dy' = at1 (Y0 d) m' - at1 (Y0 d) m1'"
  have X: "at1 (X0 d) k = coilPitch d * of_int (k - 1)" if "k \<in> {1..numCoils d}" for k
    using placed that unfolding ringsPlaced_def by blast
  have Y: "at1 (Y0 d) k = of_int (k - 1) * trenchSpacing d" if "k \<in> {1..numTrenches d}" for k
    using placed that unfolding ringsPlaced_def by blast
  have x: "dx = coilPitch d * of_int (n - n1)" "dx' = coilPitch d * of_int (n' - n1')"
    unfolding dx_def dx'_def X[OF r(2)] X[OF r(4)] X[OF r'(2)] X[OF r'(4)]
    by (simp_all add: algebra_simps)
  have y: "dy = of_int (m - m1) * trenchSpacing d" "dy' = of_int (m' - m1') * trenchSpacing d"
    unfolding dy_def dy'_def Y[OF r(1)] Y[OF r(3)] Y[OF r'(1)] Y[OF r'(3)]
    by (simp_all add: algebra_simps)
  have ax: "\<bar>dx\<bar> = \<bar>dx'\<bar>"
  proof -
    have "\<bar>dx\<bar> = \<bar>coilPitch d\<bar> * of_int \<bar>n - n1\<bar>" unfolding x by (simp add: abs_mult)
    also have "\<dots> = \<bar>coilPitch d\<bar> * of_int \<bar>n' - n1'\<bar>" unfolding o ..
    also have "\<dots> = \<bar>dx'\<bar>" unfolding x by (simp add: abs_mult)
    finally show ?thesis .
  qed
  have ay: "\<bar>dy\<bar> = \<bar>dy'\<bar>"
  proof -
    have "\<bar>dy\<bar> = of_int \<bar>m - m1\<bar> * \<bar>trenchSpacing d\<bar>" unfolding y by (simp add: abs_mult)
    also have "\<dots> = of_int \<bar>m' - m1'\<bar> * \<bar>trenchSpacing d\<bar>" unfolding o ..
    also have "\<dots> = \<bar>dy'\<bar>" unfolding y by (simp add: abs_mult)
    finally show ?thesis .
  qed
  have sq: "dx\<^sup>2 = dx'\<^sup>2" "dy\<^sup>2 = dy'\<^sup>2"
    using ax ay by (metis power2_abs)+
  have dist: "distToCenter d m n m1 n1 = distToCenter d m' n' m1' n1'"
    unfolding distToCenter_def dx_def[symmetric] dy_def[symmetric] dx'_def[symmetric]
      dy'_def[symmetric] sq ..
  have same: "(m1 = m \<and> n1 = n) = (m1' = m' \<and> n1' = n')"
    using o by auto
  have int: "offsetIntegral d t dx dy 33 J = offsetIntegral d t dx' dy' 33 J"
    if "J = 1089 \<or> J = 561" for J
  proof -
    have a: "offsetIntegral d t u v (4 * 8 + 1) (4 * q + 1)
           = offsetIntegral d t \<bar>u\<bar> \<bar>v\<bar> (4 * 8 + 1) (4 * q + 1)" if "1 \<le> q" for u v q
      by (rule offsetIntegral_abs) (use that in simp_all)
    from that consider "J = 4 * 272 + 1" | "J = 4 * 140 + 1" by auto
    then show ?thesis
    proof cases
      case 1
      show ?thesis using a[of 272 dx dy] a[of 272 dx' dy'] ax ay unfolding 1 by simp
    next
      case 2
      show ?thesis using a[of 140 dx dy] a[of 140 dx' dy'] ax ay unfolding 2 by simp
    qed
  qed
  show ?thesis
    unfolding ringKernel_offset dist[symmetric] same[symmetric]
      midField_by_distance[OF dist, symmetric]
      dx_def[symmetric] dy_def[symmetric] dx'_def[symmetric] dy'_def[symmetric]
    using int by simp
qed

lemma ringResponse_form:
  "ringResponse d t numRC numLC m1 n1 m n valStored =
    (if distToCenter d m n m1 n1 \<le> 2.5 + coilDiameter d \<or> \<not> distToCenter d m n m1 n1 > 10 + coilDiameter d
     then
       (if valStored (\<bar>m - m1\<bar>, \<bar>n - n1\<bar>) < 0
        then (symmetryWeight d numRC numLC m1 n1 * ringKernel d t m n m1 n1,
              valStored ((\<bar>m - m1\<bar>, \<bar>n - n1\<bar>) := ringKernel d t m n m1 n1),
              if distToCenter d m n m1 n1 \<le> 2.5 + coilDiameter d then 1 else 0)
        else (symmetryWeight d numRC numLC m1 n1 * valStored (\<bar>m - m1\<bar>, \<bar>n - n1\<bar>), valStored, 0))
     else (0, valStored, 0))"
proof (cases "m1 = m \<and> n1 = n")
  case True
  show ?thesis
    unfolding ringResponse_def ringKernel_code Let_def if_P[OF True] by simp
next
  case False
  show ?thesis
    unfolding ringResponse_def ringKernel_code Let_def if_not_P[OF False] by simp
qed

lemma pair_step:
  assumes placed: "ringsPlaced d"
    and r: "m \<in> {1..numTrenches d}" "n \<in> {1..numCoils d}"
           "m1 \<in> {1..numTrenches d}" "n1 \<in> {1..numCoils d}"
    and sound: "storeSound d t valStored"
  shows "fst (ringResponse d t numRC numLC m1 n1 m n valStored)
           = symmetryWeight d numRC numLC m1 n1 * ringKernel d t m n m1 n1"
    and "storeSound d t (fst (snd (ringResponse d t numRC numLC m1 n1 m n valStored)))"
    and "2.5 + coilDiameter d < distToCenter d m n m1 n1
           \<Longrightarrow> snd (snd (ringResponse d t numRC numLC m1 n1 m n valStored)) = 0"
proof -
  have here: "valStored (\<bar>m - m1\<bar>, \<bar>n - n1\<bar>) < 0
       \<or> valStored (\<bar>m - m1\<bar>, \<bar>n - n1\<bar>) = ringKernel d t m n m1 n1"
    using sound r unfolding storeSound_def by blast
  have far: "ringKernel d t m n m1 n1 = 0"
    if "\<not> (distToCenter d m n m1 n1 \<le> 2.5 + coilDiameter d \<or> \<not> distToCenter d m n m1 n1 > 10 + coilDiameter d)"
    using that unfolding ringKernel_def by simp
  show "fst (ringResponse d t numRC numLC m1 n1 m n valStored)
           = symmetryWeight d numRC numLC m1 n1 * ringKernel d t m n m1 n1"
    unfolding ringResponse_form using here far by auto
  show "snd (snd (ringResponse d t numRC numLC m1 n1 m n valStored)) = 0"
    if "2.5 + coilDiameter d < distToCenter d m n m1 n1"
    unfolding ringResponse_form using that by simp
  have upd: "storeSound d t (valStored ((\<bar>m - m1\<bar>, \<bar>n - n1\<bar>) := ringKernel d t m n m1 n1))"
    unfolding storeSound_def
  proof (intro ballI)
    fix m' n' m1' n1'
    assume r': "m' \<in> {1..numTrenches d}" "n' \<in> {1..numCoils d}"
      "m1' \<in> {1..numTrenches d}" "n1' \<in> {1..numCoils d}"
    show "(valStored ((\<bar>m - m1\<bar>, \<bar>n - n1\<bar>) := ringKernel d t m n m1 n1)) (\<bar>m' - m1'\<bar>, \<bar>n' - n1'\<bar>) < 0
       \<or> (valStored ((\<bar>m - m1\<bar>, \<bar>n - n1\<bar>) := ringKernel d t m n m1 n1)) (\<bar>m' - m1'\<bar>, \<bar>n' - n1'\<bar>)
           = ringKernel d t m' n' m1' n1'"
    proof (cases "(\<bar>m' - m1'\<bar>, \<bar>n' - n1'\<bar>) = (\<bar>m - m1\<bar>, \<bar>n - n1\<bar>)")
      case True
      then have o: "\<bar>m - m1\<bar> = \<bar>m' - m1'\<bar>" "\<bar>n - n1\<bar> = \<bar>n' - n1'\<bar>" by simp_all
      have "ringKernel d t m n m1 n1 = ringKernel d t m' n' m1' n1'"
        by (rule ringKernel_by_offset[OF placed r r' o])
      then show ?thesis using True by simp
    next
      case False
      have "valStored (\<bar>m' - m1'\<bar>, \<bar>n' - n1'\<bar>) < 0
          \<or> valStored (\<bar>m' - m1'\<bar>, \<bar>n' - n1'\<bar>) = ringKernel d t m' n' m1' n1'"
        using sound r' unfolding storeSound_def by blast
      then show ?thesis using False by auto
    qed
  qed
  show "storeSound d t (fst (snd (ringResponse d t numRC numLC m1 n1 m n valStored)))"
    unfolding ringResponse_form using upd sound by simp
qed

lemma pairStep_sound:
  assumes placed: "ringsPlaced d"
    and r: "m \<in> {1..numTrenches d}" "n \<in> {1..numCoils d}"
           "m1 \<in> {1..numTrenches d}" "n1 \<in> {1..numCoils d}"
    and sound: "storeSound d t (fst s)"
  shows "storeSound d t (fst (pairStep d t numRC numLC m1 n1 m n s))
       \<and> snd (pairStep d t numRC numLC m1 n1 m n s)
           = snd s + symmetryWeight d numRC numLC m1 n1 * ringKernel d t m n m1 n1"
  using pair_step(1,2)[OF placed r sound, of numRC numLC]
  unfolding pairStep_def by (simp add: split_def)

text \<open>A loop that adds \<open>c J\<close> in its step \<open>J\<close>, and keeps a property of the first component.\<close>

lemma loop_sum:
  fixes body :: "int \<Rightarrow> 'a \<times> real \<Rightarrow> 'a \<times> real"
  assumes step: "\<And>J s. 1 \<le> J \<Longrightarrow> J \<le> limit \<Longrightarrow> Q (fst s)
                   \<Longrightarrow> Q (fst (body J s)) \<and> snd (body J s) = snd s + c J"
    and start: "Q (fst s0)"
  shows "Q (fst (forLoop 1 limit body s0))
       \<and> snd (forLoop 1 limit body s0) = snd s0 + (\<Sum>J = 1..limit. c J)"
proof -
  define P where "P = (\<lambda>J (s :: 'a \<times> real). Q (fst s) \<and> snd s = snd s0 + (\<Sum>K = 1..J - 1. c K))"
  have p0: "P 1 s0" using start by (simp add: P_def)
  have pstep: "P (J + 1) (body J s)" if "1 \<le> J" "J \<le> limit" "P J s" for J s
  proof -
    have q: "Q (fst s)" and v: "snd s = snd s0 + (\<Sum>K = 1..J - 1. c K)"
      using that(3) by (simp_all add: P_def)
    have "{1..J} = insert J {1..J - 1}" using that(1) by auto
    then have "(\<Sum>K = 1..J. c K) = c J + (\<Sum>K = 1..J - 1. c K)" by simp
    then show ?thesis using step[OF that(1,2) q] v by (simp add: P_def)
  qed
  have "P (if 1 \<le> limit then limit + 1 else 1) (forLoop 1 limit body s0)"
    by (rule forLoop_counted[where P=P, OF p0]) (rule pstep)
  then show ?thesis by (cases "1 \<le> limit") (simp_all add: P_def)
qed

lemma coils_loop:
  assumes placed: "ringsPlaced d"
    and r: "m \<in> {1..numTrenches d}" "m1 \<in> {1..numTrenches d}" "n1 \<in> {1..numCoils d}"
    and limit: "limit \<le> numCoils d"
    and sound: "storeSound d t (fst s)"
  shows "storeSound d t (fst (forLoop 1 limit (pairStep d t numRC numLC m1 n1 m) s))
       \<and> snd (forLoop 1 limit (pairStep d t numRC numLC m1 n1 m) s)
           = snd s + (\<Sum>n = 1..limit. symmetryWeight d numRC numLC m1 n1 * ringKernel d t m n m1 n1)"
proof (rule loop_sum[where Q="storeSound d t", OF _ sound])
  fix J and u :: "(int \<times> int \<Rightarrow> real) \<times> real"
  assume j: "1 \<le> J" "J \<le> limit" and q: "storeSound d t (fst u)"
  have n: "J \<in> {1..numCoils d}" using j limit by simp
  show "storeSound d t (fst (pairStep d t numRC numLC m1 n1 m J u))
       \<and> snd (pairStep d t numRC numLC m1 n1 m J u)
           = snd u + symmetryWeight d numRC numLC m1 n1 * ringKernel d t m J m1 n1"
    by (rule pairStep_sound[OF placed r(1) n r(2,3) q])
qed

lemma trenches_loop:
  assumes placed: "ringsPlaced d"
    and r: "m1 \<in> {1..numTrenches d}" "n1 \<in> {1..numCoils d}"
    and limit: "limit \<le> numTrenches d"
    and sound: "storeSound d t (fst s)"
  shows "storeSound d t (fst (forLoop 1 limit (ringLoop d t numRC numLC m1 n1) s))
       \<and> snd (forLoop 1 limit (ringLoop d t numRC numLC m1 n1) s)
           = snd s + (\<Sum>m = 1..limit. \<Sum>n = 1..numCoils d.
                        symmetryWeight d numRC numLC m1 n1 * ringKernel d t m n m1 n1)"
proof (rule loop_sum[where Q="storeSound d t", OF _ sound])
  fix J and u :: "(int \<times> int \<Rightarrow> real) \<times> real"
  assume j: "1 \<le> J" "J \<le> limit" and q: "storeSound d t (fst u)"
  have m: "J \<in> {1..numTrenches d}" using j limit by simp
  show "storeSound d t (fst (ringLoop d t numRC numLC m1 n1 J u))
       \<and> snd (ringLoop d t numRC numLC m1 n1 J u)
           = snd u + (\<Sum>n = 1..numCoils d.
                        symmetryWeight d numRC numLC m1 n1 * ringKernel d t J n m1 n1)"
    unfolding ringLoop_def by (rule coils_loop[OF placed m r order_refl q])
qed

lemma sources_loop:
  assumes placed: "ringsPlaced d"
    and r: "m1 \<in> {1..numTrenches d}"
    and limit: "limit \<le> numCoils d"
    and sound: "storeSound d t (fst s)"
  shows "storeSound d t (fst (forLoop 1 limit (trenchLoop d t numRC numLC m1) s))
       \<and> snd (forLoop 1 limit (trenchLoop d t numRC numLC m1) s)
           = snd s + (\<Sum>n1 = 1..limit. \<Sum>m = 1..numTrenches d. \<Sum>n = 1..numCoils d.
                        symmetryWeight d numRC numLC m1 n1 * ringKernel d t m n m1 n1)"
proof (rule loop_sum[where Q="storeSound d t", OF _ sound])
  fix J and u :: "(int \<times> int \<Rightarrow> real) \<times> real"
  assume j: "1 \<le> J" "J \<le> limit" and q: "storeSound d t (fst u)"
  have n1: "J \<in> {1..numCoils d}" using j limit by simp
  show "storeSound d t (fst (trenchLoop d t numRC numLC m1 J u))
       \<and> snd (trenchLoop d t numRC numLC m1 J u)
           = snd u + (\<Sum>m = 1..numTrenches d. \<Sum>n = 1..numCoils d.
                        symmetryWeight d numRC numLC m1 J * ringKernel d t m n m1 J)"
    unfolding trenchLoop_def by (rule trenches_loop[OF placed r n1 order_refl q])
qed

text \<open>
  The source rings are those of a quarter of the field: \<^verbatim>\<open>numLC\<close> is at most the number of
  coils, unless there is no coil at all.
\<close>

lemma source_rows_loop:
  assumes placed: "ringsPlaced d"
    and lc: "numLC < 1 \<or> numLC \<le> numCoils d"
    and limit: "limit \<le> numTrenches d"
    and sound: "storeSound d t (fst s)"
  shows "storeSound d t (fst (forLoop 1 limit (sourceLoop d t numRC numLC) s))
       \<and> snd (forLoop 1 limit (sourceLoop d t numRC numLC) s)
           = snd s + (\<Sum>m1 = 1..limit. \<Sum>n1 = 1..numLC. \<Sum>m = 1..numTrenches d. \<Sum>n = 1..numCoils d.
                        symmetryWeight d numRC numLC m1 n1 * ringKernel d t m n m1 n1)"
proof (rule loop_sum[where Q="storeSound d t", OF _ sound])
  fix J and u :: "(int \<times> int \<Rightarrow> real) \<times> real"
  assume j: "1 \<le> J" "J \<le> limit" and q: "storeSound d t (fst u)"
  have m1: "J \<in> {1..numTrenches d}" using j limit by simp
  show "storeSound d t (fst (sourceLoop d t numRC numLC J u))
       \<and> snd (sourceLoop d t numRC numLC J u)
           = snd u + (\<Sum>n1 = 1..numLC. \<Sum>m = 1..numTrenches d. \<Sum>n = 1..numCoils d.
                        symmetryWeight d numRC numLC J n1 * ringKernel d t m n J n1)"
  proof (cases "numLC < 1")
    case True
    have e: "forLoop 1 numLC (trenchLoop d t numRC numLC J) u = u"
      using True by (subst forLoop.simps) simp
    show ?thesis unfolding sourceLoop_def e using True q by simp
  next
    case False
    then have "numLC \<le> numCoils d" using lc by simp
    then show ?thesis unfolding sourceLoop_def by (rule sources_loop[OF placed m1 _ q])
  qed
qed

lemma emptyStore_sound: "storeSound d t (\<lambda>ij. - 1.0)" "storeSound d t (\<lambda>ij. - 1)"
  by (simp_all add: storeSound_def)

lemma stateBefore_sound:
  assumes placed: "ringsPlaced d"
    and lc: "numLC < 1 \<or> numLC \<le> numCoils d"
    and r: "m \<in> {1..numTrenches d}" "n \<in> {1..numCoils d}"
           "m1 \<in> {1..numTrenches d}" "n1 \<in> {1..numCoils d}"
  shows "storeSound d t (fst (stateBefore d t numRC numLC m1 n1 m n))"
proof -
  define s1 where "s1 = forLoop 1 (m1 - 1) (sourceLoop d t numRC numLC) (\<lambda>ij. - 1.0, 0)"
  define s2 where "s2 = forLoop 1 (n1 - 1) (trenchLoop d t numRC numLC m1) s1"
  define s3 where "s3 = forLoop 1 (m - 1) (ringLoop d t numRC numLC m1 n1) s2"
  have 1: "storeSound d t (fst s1)"
    unfolding s1_def
    by (rule source_rows_loop[OF placed lc, THEN conjunct1]) (use r in \<open>simp_all add: emptyStore_sound\<close>)
  have 2: "storeSound d t (fst s2)"
    unfolding s2_def
    by (rule sources_loop[OF placed r(3) _ 1, THEN conjunct1]) (use r in simp)
  have 3: "storeSound d t (fst s3)"
    unfolding s3_def
    by (rule trenches_loop[OF placed r(3,4) _ 2, THEN conjunct1]) (use r in simp)
  show ?thesis
    unfolding stateBefore_def s1_def[symmetric] s2_def[symmetric] s3_def[symmetric]
    by (rule coils_loop[OF placed r(1,3,4) _ 3, THEN conjunct1]) (use r in simp)
qed

text \<open>What a pair of rings adds to the response of the field.\<close>

lemma contribution_weighted:
  assumes placed: "ringsPlaced d"
    and lc: "numLC < 1 \<or> numLC \<le> numCoils d"
    and r: "m \<in> {1..numTrenches d}" "n \<in> {1..numCoils d}"
           "m1 \<in> {1..numTrenches d}" "n1 \<in> {1..numCoils d}"
  shows "contribution d t numRC numLC m1 n1 m n
           = symmetryWeight d numRC numLC m1 n1 * ringKernel d t m n m1 n1"
    and "2.5 + coilDiameter d < distToCenter d m n m1 n1
           \<Longrightarrow> integralsEvaluated d t numRC numLC m1 n1 m n = 0"
  unfolding contribution_def integralsEvaluated_def
  using pair_step(1,3)[OF placed r stateBefore_sound[OF placed lc r]] by blast+

lemma fieldResponse_weighted:
  assumes placed: "ringsPlaced d"
    and lc: "numLC < 1 \<or> numLC \<le> numCoils d"
    and rc: "numRC < 1 \<or> numRC \<le> numTrenches d"
  shows "fieldResponse d t numRC numLC
           = (\<Sum>m1 = 1..numRC. \<Sum>n1 = 1..numLC. \<Sum>m = 1..numTrenches d. \<Sum>n = 1..numCoils d.
                symmetryWeight d numRC numLC m1 n1 * ringKernel d t m n m1 n1)"
proof (cases "numRC < 1")
  case True
  have e: "forLoop 1 numRC (sourceLoop d t numRC numLC) (\<lambda>ij. - 1.0, 0) = (\<lambda>ij. - 1.0, 0)"
    using True by (subst forLoop.simps) simp
  show ?thesis unfolding fieldResponse_loops e using True by simp
next
  case False
  then have l: "numRC \<le> numTrenches d" using rc by simp
  have s: "storeSound d t (fst (\<lambda>ij. - 1.0 :: real, 0 :: real))" by (simp add: emptyStore_sound)
  show ?thesis
    unfolding fieldResponse_loops
    using source_rows_loop[OF placed lc l s, THEN conjunct2, of numRC] by simp
qed

lemma fieldResponse_contributions:
  assumes placed: "ringsPlaced d"
    and lc: "numLC < 1 \<or> numLC \<le> numCoils d"
    and rc: "numRC < 1 \<or> numRC \<le> numTrenches d"
  shows "fieldResponse d t numRC numLC
           = (\<Sum>m1 = 1..numRC. \<Sum>n1 = 1..numLC. \<Sum>m = 1..numTrenches d. \<Sum>n = 1..numCoils d.
                contribution d t numRC numLC m1 n1 m n)"
proof -
  have c: "contribution d t numRC numLC m1 n1 m n
             = symmetryWeight d numRC numLC m1 n1 * ringKernel d t m n m1 n1"
    if "m1 \<in> {1..numRC}" "n1 \<in> {1..numLC}" "m \<in> {1..numTrenches d}" "n \<in> {1..numCoils d}"
    for m1 n1 m n
  proof -
    have "m1 \<in> {1..numTrenches d}" using that(1) rc by auto
    moreover have "n1 \<in> {1..numCoils d}" using that(2) lc by auto
    ultimately show ?thesis using contribution_weighted(1)[OF placed lc that(3,4)] by blast
  qed
  show ?thesis
    unfolding fieldResponse_weighted[OF placed lc rc]
    by (intro sum.cong refl) (simp add: c)
qed

subsection \<open>The pair of rings within the run of the loops\<close>

lemma forLoop_split:
  "I \<le> k \<Longrightarrow> k \<le> limit + 1
     \<Longrightarrow> forLoop I limit body s = forLoop k limit body (forLoop I (k - 1) body s)"
proof (induction I limit body s rule: forLoop.induct)
  case (1 I limit body s)
  show ?case
  proof (cases "I = k")
    case True
    have "forLoop I (k - 1) body s = s" using True by (subst forLoop.simps) simp
    then show ?thesis using True by simp
  next
    case False
    then have lt: "I < k" using "1.prems" by simp
    then have le: "I \<le> limit" using "1.prems" by simp
    have a: "forLoop I limit body s = forLoop (I + 1) limit body (body I s)"
      using le by (subst forLoop.simps) simp
    have b: "forLoop I (k - 1) body s = forLoop (I + 1) (k - 1) body (body I s)"
      using lt by (subst forLoop.simps) simp
    have "forLoop (I + 1) limit body (body I s)
            = forLoop k limit body (forLoop (I + 1) (k - 1) body (body I s))"
      by (rule "1.IH"[OF le]) (use lt "1.prems" in simp_all)
    then show ?thesis unfolding a b .
  qed
qed

lemma forLoop_at:
  assumes "1 \<le> k" and "k \<le> limit"
  shows "forLoop 1 limit body s = forLoop (k + 1) limit body (body k (forLoop 1 (k - 1) body s))"
proof -
  have "forLoop 1 limit body s = forLoop k limit body (forLoop 1 (k - 1) body s)"
    by (rule forLoop_split) (use assms in simp_all)
  also have "\<dots> = forLoop (k + 1) limit body (body k (forLoop 1 (k - 1) body s))"
    using assms(2) by (subst forLoop.simps) simp
  finally show ?thesis .
qed

text \<open>
  For a source ring of the quarter of the field that the loops cover, the loops reach the
  pair in the state \<open>stateBefore\<close>, and go on from what the pair makes of it.
\<close>

lemma pair_in_run:
  assumes "m1 \<in> {1..numRC}" and "n1 \<in> {1..numLC}"
    and "m \<in> {1..numTrenches d}" and "n \<in> {1..numCoils d}"
  shows "forLoop 1 numRC (sourceLoop d t numRC numLC) (\<lambda>ij. - 1.0, 0)
    = forLoop (m1 + 1) numRC (sourceLoop d t numRC numLC)
       (forLoop (n1 + 1) numLC (trenchLoop d t numRC numLC m1)
         (forLoop (m + 1) (numTrenches d) (ringLoop d t numRC numLC m1 n1)
           (forLoop (n + 1) (numCoils d) (pairStep d t numRC numLC m1 n1 m)
             (pairStep d t numRC numLC m1 n1 m n (stateBefore d t numRC numLC m1 n1 m n)))))"
proof -
  define s1 where "s1 = forLoop 1 (m1 - 1) (sourceLoop d t numRC numLC) (\<lambda>ij. - 1.0, 0)"
  define s2 where "s2 = forLoop 1 (n1 - 1) (trenchLoop d t numRC numLC m1) s1"
  define s3 where "s3 = forLoop 1 (m - 1) (ringLoop d t numRC numLC m1 n1) s2"
  have 1: "forLoop 1 numRC (sourceLoop d t numRC numLC) (\<lambda>ij. - 1.0, 0)
      = forLoop (m1 + 1) numRC (sourceLoop d t numRC numLC) (sourceLoop d t numRC numLC m1 s1)"
    unfolding s1_def by (rule forLoop_at) (use assms in simp_all)
  have 2: "sourceLoop d t numRC numLC m1 s1
      = forLoop (n1 + 1) numLC (trenchLoop d t numRC numLC m1) (trenchLoop d t numRC numLC m1 n1 s2)"
    unfolding s2_def sourceLoop_def by (rule forLoop_at) (use assms in simp_all)
  have 3: "trenchLoop d t numRC numLC m1 n1 s2
      = forLoop (m + 1) (numTrenches d) (ringLoop d t numRC numLC m1 n1)
          (ringLoop d t numRC numLC m1 n1 m s3)"
    unfolding s3_def trenchLoop_def by (rule forLoop_at) (use assms in simp_all)
  have 4: "ringLoop d t numRC numLC m1 n1 m s3
      = forLoop (n + 1) (numCoils d) (pairStep d t numRC numLC m1 n1 m)
          (pairStep d t numRC numLC m1 n1 m n
             (forLoop 1 (n - 1) (pairStep d t numRC numLC m1 n1 m) s3))"
    unfolding ringLoop_def by (rule forLoop_at) (use assms in simp_all)
  show ?thesis
    unfolding 1 2 3 4 stateBefore_def s1_def[symmetric] s2_def[symmetric] s3_def[symmetric] ..
qed

subsection \<open>The response reads the rings only\<close>

lemma unwritten_fields:
  assumes u: "unwritten d = unwritten d'"
  shows "coilDiameter d = coilDiameter d'" "pipeOutDia d = pipeOutDia d'"
    "verticalConfig d = verticalConfig d'" "coilDepth d = coilDepth d'"
    "diffusivityGround d = diffusivityGround d'"
    "numTrenches d = numTrenches d'" "numCoils d = numCoils d'"
    "coilPitch d = coilPitch d'" "trenchSpacing d = trenchSpacing d'"
    "maxSimYears d = maxSimYears d'"
proof -
  have "coilDiameter (unwritten d) = coilDiameter (unwritten d')" unfolding u ..
  then show "coilDiameter d = coilDiameter d'" by (simp add: unwritten_def)
  have "pipeOutDia (unwritten d) = pipeOutDia (unwritten d')" unfolding u ..
  then show "pipeOutDia d = pipeOutDia d'" by (simp add: unwritten_def)
  have "verticalConfig (unwritten d) = verticalConfig (unwritten d')" unfolding u ..
  then show "verticalConfig d = verticalConfig d'" by (simp add: unwritten_def)
  have "coilDepth (unwritten d) = coilDepth (unwritten d')" unfolding u ..
  then show "coilDepth d = coilDepth d'" by (simp add: unwritten_def)
  have "diffusivityGround (unwritten d) = diffusivityGround (unwritten d')" unfolding u ..
  then show "diffusivityGround d = diffusivityGround d'" by (simp add: unwritten_def)
  have "numTrenches (unwritten d) = numTrenches (unwritten d')" unfolding u ..
  then show "numTrenches d = numTrenches d'" by (simp add: unwritten_def)
  have "numCoils (unwritten d) = numCoils (unwritten d')" unfolding u ..
  then show "numCoils d = numCoils d'" by (simp add: unwritten_def)
  have "coilPitch (unwritten d) = coilPitch (unwritten d')" unfolding u ..
  then show "coilPitch d = coilPitch d'" by (simp add: unwritten_def)
  have "trenchSpacing (unwritten d) = trenchSpacing (unwritten d')" unfolding u ..
  then show "trenchSpacing d = trenchSpacing d'" by (simp add: unwritten_def)
  have "maxSimYears (unwritten d) = maxSimYears (unwritten d')" unfolding u ..
  then show "maxSimYears d = maxSimYears d'" by (simp add: unwritten_def)
qed

lemma rings_fields:
  assumes "rings d = rings d'"
  shows "X0 d = X0 d'" "Y0 d = Y0 d'" "Z0 d = Z0 d'"
    "coilDiameter d = coilDiameter d'" "pipeOutDia d = pipeOutDia d'"
    "verticalConfig d = verticalConfig d'" "coilDepth d = coilDepth d'"
    "diffusivityGround d = diffusivityGround d'"
    "numTrenches d = numTrenches d'" "numCoils d = numCoils d'"
    "coilPitch d = coilPitch d'" "trenchSpacing d = trenchSpacing d'"
proof -
  have u: "unwritten d = unwritten d'" using assms by (simp add: rings_def)
  show "X0 d = X0 d'" "Y0 d = Y0 d'" "Z0 d = Z0 d'" using assms by (simp_all add: rings_def)
  show "coilDiameter d = coilDiameter d'" "pipeOutDia d = pipeOutDia d'"
    "verticalConfig d = verticalConfig d'" "coilDepth d = coilDepth d'"
    "diffusivityGround d = diffusivityGround d'"
    "numTrenches d = numTrenches d'" "numCoils d = numCoils d'"
    "coilPitch d = coilPitch d'" "trenchSpacing d = trenchSpacing d'"
    by (rule unwritten_fields[OF u])+
qed

lemma rings_update:
  "rings (d \<lparr> GFNC := a \<rparr>) = rings d" "rings (d \<lparr> LNTTS := b \<rparr>) = rings d"
  "rings (d \<lparr> gFuncCalls := c \<rparr>) = rings d"
  by (simp_all add: rings_def unwritten_def)

lemma rings_response:
  assumes a: "rings d = rings d'"
  shows "distToCenter d = distToCenter d'"
    and "symmetryWeight d = symmetryWeight d'"
    and "ringKernel d = ringKernel d'"
    and "ringResponse d = ringResponse d'"
    and "ringsPlaced d = ringsPlaced d'"
proof -
  note f = rings_fields[OF a]
  show dc: "distToCenter d = distToCenter d'"
    by (intro ext) (unfold distToCenter_def f, rule refl)
  show sw: "symmetryWeight d = symmetryWeight d'"
    by (intro ext) (unfold symmetryWeight_def f, rule refl)
  have di: "distance d = distance d'"
    by (intro ext) (unfold distance_def f, rule refl)
  have df: "distanceToFictRing d = distanceToFictRing d'"
    by (intro ext) (unfold distanceToFictRing_def f, rule refl)
  have nf: "nearFieldResponseFunction d = nearFieldResponseFunction d'"
    by (intro ext) (unfold nearFieldResponseFunction_def f di df, rule refl)
  have mf: "midFieldResponseFunction d = midFieldResponseFunction d'"
    by (intro ext) (unfold midFieldResponseFunction_def f dc, rule refl)
  have it: "integral d = integral d'"
    by (intro ext) (unfold integral_def nf, rule refl)
  have dd: "doubleIntegral d = doubleIntegral d'"
    by (intro ext) (unfold doubleIntegral_def it, rule refl)
  show "ringKernel d = ringKernel d'"
    by (intro ext) (unfold ringKernel_def f dc nf mf, rule refl)
  show "ringResponse d = ringResponse d'"
    by (intro ext) (unfold ringResponse_def f dc sw dd mf, rule refl)
  show "ringsPlaced d = ringsPlaced d'"
    unfolding ringsPlaced_def f ..
qed

lemma rings_loops:
  assumes a: "rings d = rings d'"
  shows "fieldResponse d = fieldResponse d'"
    and "contribution d = contribution d'"
    and "integralsEvaluated d = integralsEvaluated d'"
proof -
  note f = rings_fields[OF a]
  note r = rings_response(4)[OF a]
  have ps: "pairStep d = pairStep d'" by (intro ext) (unfold pairStep_def r, rule refl)
  have rl: "ringLoop d = ringLoop d'" by (intro ext) (unfold ringLoop_def ps f, rule refl)
  have tl: "trenchLoop d = trenchLoop d'" by (intro ext) (unfold trenchLoop_def rl f, rule refl)
  have sl: "sourceLoop d = sourceLoop d'" by (intro ext) (unfold sourceLoop_def tl, rule refl)
  have sb: "stateBefore d = stateBefore d'" by (intro ext) (unfold stateBefore_def ps rl tl sl, rule refl)
  show "fieldResponse d = fieldResponse d'" by (intro ext) (unfold fieldResponse_loops sl, rule refl)
  show "contribution d = contribution d'" by (intro ext) (unfold contribution_def sb r, rule refl)
  show "integralsEvaluated d = integralsEvaluated d'"
    by (intro ext) (unfold integralsEvaluated_def sb r, rule refl)
qed

subsection \<open>The rings and the table after \<^verbatim>\<open>calcGFunctions\<close>\<close>

lemma put1_fill:
  assumes j: "1 \<le> J" and len: "nat (J - 1) < length A"
    and old: "\<forall>k. 1 \<le> k \<and> k < J \<longrightarrow> at1 A k = f k"
  shows "\<forall>k. 1 \<le> k \<and> k < J + 1 \<longrightarrow> at1 (put1 A J (f J)) k = f k"
proof (intro allI impI)
  fix k assume h: "1 \<le> k \<and> k < J + 1"
  show "at1 (put1 A J (f J)) k = f k"
  proof (cases "k = J")
    case True
    then show ?thesis using at1_put1_same[OF j len] by simp
  next
    case False
    then have "k < J" using h by simp
    then have "at1 A k = f k" using old h by blast
    then show ?thesis using at1_put1_other[of k J A "f J"] h False by simp
  qed
qed

lemma calcGFunctions_rings:
  fixes d :: "'a GLHESlinky_scheme"
  assumes dF: "dF = GLHESlinky_calcGFunctions d"
  shows "ringsPlaced dF"
    and "NPairs dF = toInt ((tLg_max d - tLg_min) / tLg_grid + 1)"
    and "NT \<in> {1..NPairs dF} \<Longrightarrow>
         at1 (GFNC dF) NT =
           fieldResponse dF (sampleTime NT)
               \<lceil>of_int (numTrenches dF) / (2::real)\<rceil> \<lceil>of_int (numCoils dF) / (2::real)\<rceil>
             * (coilDiameter dF / 2)
             / (4 * pi * (if numTrenches dF > 1 then 0.25 else 0.5)
                  * of_int (numTrenches dF) * of_int (numCoils dF))"
proof -
  define d1 where "d1 = d \<lparr> X0 := allocate (numCoils d), Y0 := allocate (numTrenches d) \<rparr>"
  define d2 where "d2 = d1 \<lparr> NPairs := toInt ((tLg_max d1 - tLg_min) / tLg_grid + 1) \<rparr>"
  define d3 where "d3 = d2 \<lparr> GFNC := allocate (NPairs d2), LNTTS := allocate (NPairs d2),
                 QnMonthlyAgg := allocate (toInt (maxSimYears d2 * 12)),
                 QnHr := allocate (toInt (730 + 192.0 + 15.0)),
                 QnSubHr := allocate (toInt ((15.0 + 1) * of_int maxTSinHr + 1)),
                 LastHourN := allocate (toInt (15.0 + 1)) \<rparr>"
  define d4 where "d4 = forLoop 1 (NPairs d3)
               (\<lambda>i d. d \<lparr> GFNC := put1 (GFNC d) i 0.0, LNTTS := put1 (LNTTS d) i 0.0 \<rparr>) d3"
  define d5 where "d5 = forLoop 1 (numCoils d4)
               (\<lambda>coil d. d \<lparr> X0 := put1 (X0 d) coil (coilPitch d * of_int (coil - 1)) \<rparr>) d4"
  define d6 where "d6 = forLoop 1 (numTrenches d5)
               (\<lambda>trench d. d \<lparr> Y0 := put1 (Y0 d) trench (of_int (trench - 1) * trenchSpacing d) \<rparr>) d5"
  define d7 where "d7 = d6 \<lparr> Z0 := coilDepth d6 \<rparr>"
  define numLC where "numLC = \<lceil>of_int (numCoils d4) / (2.0::real)\<rceil>"
  define numRC where "numRC = \<lceil>of_int (numTrenches d4) / (2.0::real)\<rceil>"
  define G where "G = (\<lambda>NT (s :: 'a GLHESlinky_scheme).
       (fieldResponse s ((10 powr (tLg_min + tLg_grid * of_int (NT - 1))) * ts) numRC numLC * (coilDiameter s / 2.0))
          / (4 * pi * (if numTrenches d7 > 1 then 0.25 else 0.5) * of_int (numTrenches s) * of_int (numCoils s)))"
  define d8 where "d8 = forLoop 1 (NPairs d7)
               (\<lambda>NT s. s \<lparr> GFNC := put1 (GFNC s) NT (G NT s),
                           LNTTS := put1 (LNTTS s) NT (tLg_min + tLg_grid * of_int (NT - 1)) \<rparr>) d7"
  have r: "dF = d8 \<lparr> gFuncCalls := gFuncCalls d8 + 1 \<rparr>"
    unfolding dF GLHESlinky_calcGFunctions_def Let_def d8_def G_def d7_def d6_def d5_def d4_def d3_def d2_def d1_def
      numLC_def numRC_def ..
  define n where "n = NPairs d2"
  define I where "I = (\<lambda>s :: 'a GLHESlinky_scheme. unwritten s = unwritten d
      \<and> length (X0 s) = nat (numCoils d) \<and> length (Y0 s) = nat (numTrenches d)
      \<and> NPairs s = n \<and> length (GFNC s) = nat n)"
  have i3: "I d3"
    unfolding I_def d3_def d2_def d1_def n_def by (simp add: unwritten_def allocate_length)
  have i4: "I d4" unfolding d4_def
    by (rule forLoop_invariant[where P=I]) (simp_all add: i3, simp add: I_def length_put1 unwritten_update)
  note c4 = unwritten_fields[OF i4[unfolded I_def, THEN conjunct1]]
  \<comment> \<open>the coils\<close>
  define PX where "PX = (\<lambda>J (s :: 'a GLHESlinky_scheme). I s
      \<and> (\<forall>k. 1 \<le> k \<and> k < J \<longrightarrow> at1 (X0 s) k = coilPitch d * of_int (k - 1)))"
  have px0: "PX 1 d4" using i4 by (simp add: PX_def)
  have pxs: "PX (J + 1) (s \<lparr> X0 := put1 (X0 s) J (coilPitch s * of_int (J - 1)) \<rparr>)"
    if "1 \<le> J" "J \<le> numCoils d4" "PX J s" for J s
  proof -
    have i: "I s" and old: "\<forall>k. 1 \<le> k \<and> k < J \<longrightarrow> at1 (X0 s) k = coilPitch d * of_int (k - 1)"
      using that(3) by (simp_all add: PX_def)
    note c = unwritten_fields[OF i[unfolded I_def, THEN conjunct1]]
    have len: "nat (J - 1) < length (X0 s)" using i that(1,2) c4 by (simp add: I_def)
    have "\<forall>k. 1 \<le> k \<and> k < J + 1
            \<longrightarrow> at1 (put1 (X0 s) J (coilPitch d * of_int (J - 1))) k = coilPitch d * of_int (k - 1)"
      by (rule put1_fill[OF that(1) len old])
    then show ?thesis using i unfolding PX_def I_def c by (simp add: unwritten_update length_put1)
  qed
  have "PX (if 1 \<le> numCoils d4 then numCoils d4 + 1 else 1) d5"
    unfolding d5_def by (rule forLoop_counted[where P=PX, OF px0]) (rule pxs)
  then have i5: "I d5"
    and x5: "\<forall>k. 1 \<le> k \<and> k \<le> numCoils d \<longrightarrow> at1 (X0 d5) k = coilPitch d * of_int (k - 1)"
    unfolding c4 PX_def by (auto split: if_splits)
  note c5 = unwritten_fields[OF i5[unfolded I_def, THEN conjunct1]]
  \<comment> \<open>the trenches\<close>
  define PY where "PY = (\<lambda>J (s :: 'a GLHESlinky_scheme). I s \<and> X0 s = X0 d5
      \<and> (\<forall>k. 1 \<le> k \<and> k < J \<longrightarrow> at1 (Y0 s) k = of_int (k - 1) * trenchSpacing d))"
  have py0: "PY 1 d5" using i5 by (simp add: PY_def)
  have pys: "PY (J + 1) (s \<lparr> Y0 := put1 (Y0 s) J (of_int (J - 1) * trenchSpacing s) \<rparr>)"
    if "1 \<le> J" "J \<le> numTrenches d5" "PY J s" for J s
  proof -
    have i: "I s" and x: "X0 s = X0 d5"
      and old: "\<forall>k. 1 \<le> k \<and> k < J \<longrightarrow> at1 (Y0 s) k = of_int (k - 1) * trenchSpacing d"
      using that(3) by (simp_all add: PY_def)
    note c = unwritten_fields[OF i[unfolded I_def, THEN conjunct1]]
    have len: "nat (J - 1) < length (Y0 s)" using i that(1,2) c5 by (simp add: I_def)
    have "\<forall>k. 1 \<le> k \<and> k < J + 1
            \<longrightarrow> at1 (put1 (Y0 s) J (of_int (J - 1) * trenchSpacing d)) k = of_int (k - 1) * trenchSpacing d"
      by (rule put1_fill[OF that(1) len old])
    then show ?thesis using i x unfolding PY_def I_def c by (simp add: unwritten_update length_put1)
  qed
  have "PY (if 1 \<le> numTrenches d5 then numTrenches d5 + 1 else 1) d6"
    unfolding d6_def by (rule forLoop_counted[where P=PY, OF py0]) (rule pys)
  then have i6: "I d6" and x6: "X0 d6 = X0 d5"
    and y6: "\<forall>k. 1 \<le> k \<and> k \<le> numTrenches d \<longrightarrow> at1 (Y0 d6) k = of_int (k - 1) * trenchSpacing d"
    unfolding c5 PY_def by (auto split: if_splits)
  have i7: "I d7" using i6 by (simp add: I_def d7_def unwritten_update)
  note c7 = unwritten_fields[OF i7[unfolded I_def, THEN conjunct1]]
  have x7: "X0 d7 = X0 d5" and y7: "Y0 d7 = Y0 d6" using x6 by (simp_all add: d7_def)
  have placed7: "ringsPlaced d7"
    unfolding ringsPlaced_def c7 x7 y7 using x5 y6 by simp
  \<comment> \<open>the table\<close>
  define PG where "PG = (\<lambda>J (s :: 'a GLHESlinky_scheme). rings s = rings d7 \<and> NPairs s = n
      \<and> length (GFNC s) = nat n \<and> (\<forall>NT. 1 \<le> NT \<and> NT < J \<longrightarrow> at1 (GFNC s) NT = G NT d7))"
  have n7: "NPairs d7 = n" and l7: "length (GFNC d7) = nat n" using i7 by (simp_all add: I_def)
  have pg0: "PG 1 d7" using n7 l7 by (simp add: PG_def)
  have pgs: "PG (J + 1) (s \<lparr> GFNC := put1 (GFNC s) J (G J s),
                           LNTTS := put1 (LNTTS s) J (tLg_min + tLg_grid * of_int (J - 1)) \<rparr>)"
    if "1 \<le> J" "J \<le> NPairs d7" "PG J s" for J s
  proof -
    have rs: "rings s = rings d7" and np: "NPairs s = n" and l: "length (GFNC s) = nat n"
      and old: "\<forall>NT. 1 \<le> NT \<and> NT < J \<longrightarrow> at1 (GFNC s) NT = G NT d7"
      using that(3) by (simp_all add: PG_def)
    have g: "G J s = G J d7"
      unfolding G_def rings_loops(1)[OF rs] rings_fields[OF rs] ..
    have len: "nat (J - 1) < length (GFNC s)" using l that(1,2) n7 by simp
    have "\<forall>NT. 1 \<le> NT \<and> NT < J + 1 \<longrightarrow> at1 (put1 (GFNC s) J (G J d7)) NT = G NT d7"
      by (rule put1_fill[OF that(1) len old])
    then show ?thesis using rs np l unfolding PG_def g by (simp add: rings_update length_put1)
  qed
  have "PG (if 1 \<le> NPairs d7 then NPairs d7 + 1 else 1) d8"
    unfolding d8_def by (rule forLoop_counted[where P=PG, OF pg0]) (rule pgs)
  then have r8: "rings d8 = rings d7" and n8: "NPairs d8 = n"
    and g8: "\<forall>NT. 1 \<le> NT \<and> NT \<le> n \<longrightarrow> at1 (GFNC d8) NT = G NT d7"
    unfolding n7 PG_def by (auto split: if_splits)
  have rF: "rings d7 = rings dF" unfolding r using r8 by (simp add: rings_update)
  have nF: "NPairs dF = n" and gF: "GFNC dF = GFNC d8" unfolding r using n8 by simp_all
  have c47: "numCoils d4 = numCoils d7" "numTrenches d4 = numTrenches d7" using c4 c7 by simp_all
  show "ringsPlaced dF" using placed7 unfolding rings_response(5)[OF rF] .
  show "NPairs dF = toInt ((tLg_max d - tLg_min) / tLg_grid + 1)"
    unfolding nF n_def by (simp add: d2_def d1_def tLg_max_def)
  show "at1 (GFNC dF) NT =
           fieldResponse dF (sampleTime NT)
               \<lceil>of_int (numTrenches dF) / (2::real)\<rceil> \<lceil>of_int (numCoils dF) / (2::real)\<rceil>
             * (coilDiameter dF / 2)
             / (4 * pi * (if numTrenches dF > 1 then 0.25 else 0.5)
                  * of_int (numTrenches dF) * of_int (numCoils dF))"
    if "NT \<in> {1..NPairs dF}"
  proof -
    have "at1 (GFNC dF) NT = G NT d7" using that g8 unfolding nF gF by simp
    also have "\<dots> = fieldResponse dF (sampleTime NT)
               \<lceil>of_int (numTrenches dF) / (2.0::real)\<rceil> \<lceil>of_int (numCoils dF) / (2.0::real)\<rceil>
             * (coilDiameter dF / 2.0)
             / (4 * pi * (if numTrenches dF > 1 then 0.25 else 0.5)
                  * of_int (numTrenches dF) * of_int (numCoils dF))"
      unfolding G_def numRC_def numLC_def c47 sampleTime_def
        rings_loops(1)[OF rF] rings_fields[OF rF] ..
    finally show ?thesis by simp
  qed
qed

lemma half_ceiling: "1 \<le> k \<Longrightarrow> \<lceil>of_int k / (2::real)\<rceil> \<le> k"
  by (rule ceiling_le) simp

subsection \<open>Three coils in a trench\<close>

lemma threeCoils_fields:
  assumes "d = GLHESlinky_calcGFunctions threeCoils"
  shows "numTrenches d = 1" "numCoils d = 3" "coilDiameter d = 1" "coilDepth d = 5 / 4"
    "diffusivityGround d = 1 / 1000000"
proof -
  have u: "unwritten d = unwritten threeCoils" unfolding assms by (rule unwritten_calcGFunctions)
  note f = unwritten_fields[OF u]
  show "numTrenches d = 1" "numCoils d = 3" "coilDiameter d = 1" "coilDepth d = 5 / 4"
    "diffusivityGround d = 1 / 1000000"
    unfolding f by (simp_all add: threeCoils_def)
qed

lemma threeCoils_samples:
  assumes "d = GLHESlinky_calcGFunctions threeCoils"
  shows "25 \<le> NPairs d"
proof -
  have "(10::real) powr 4 \<le> 17088" by simp
  then have l: "4 \<le> log 10 (17088::real)" using le_log_iff[of 10 17088 4] by simp
  have m: "maxSimYears threeCoils * convertYearsToSeconds / ts = 17088"
    by (simp add: threeCoils_def convertYearsToSeconds_def ts_def)
  have "25 \<le> (log 10 17088 - tLg_min) / tLg_grid + 1"
    using l by (simp add: tLg_min_def tLg_grid_def)
  then have "25 \<le> toInt ((log 10 17088 - tLg_min) / tLg_grid + 1)"
    unfolding toInt_def by (simp add: le_floor_iff)
  then show ?thesis
    unfolding calcGFunctions_rings(2)[OF assms] tLg_max_def m .
qed

lemma sampleTime_25: "sampleTime 25 = 36000000"
proof -
  have "tLg_min + tLg_grid * of_int (25 - 1) = 4" by (simp add: tLg_min_def tLg_grid_def)
  then have "sampleTime 25 = 10 powr 4 * ts" unfolding sampleTime_def by simp
  then show ?thesis by (simp add: ts_def)
qed

lemma threeCoils_distance:
  assumes "d = GLHESlinky_calcGFunctions threeCoils"
  shows "distToCenter d 1 1 1 2 = 6"
proof -
  note f = threeCoils_fields[OF assms]
  have u: "unwritten d = unwritten threeCoils" unfolding assms by (rule unwritten_calcGFunctions)
  have p: "coilPitch d = 6" unfolding unwritten_fields[OF u] by (simp add: threeCoils_def)
  have placed: "ringsPlaced d" by (rule calcGFunctions_rings(1)[OF assms])
  have "at1 (X0 d) 1 = coilPitch d * of_int (1 - 1)" "at1 (X0 d) 2 = coilPitch d * of_int (2 - 1)"
    using placed unfolding ringsPlaced_def f by simp_all
  then have x: "at1 (X0 d) 1 = 0" "at1 (X0 d) 2 = 6" using p by simp_all
  show ?thesis unfolding distToCenter_def x by (simp add: sqrt_36)
qed

lemma threeCoils_weight:
  assumes "d = GLHESlinky_calcGFunctions threeCoils"
  shows "symmetryWeight d 1 2 1 2 = 1 / 2"
  unfolding symmetryWeight_def threeCoils_fields[OF assms] by (simp add: isEven_def)

lemma threeCoils_midField:
  assumes "d = GLHESlinky_calcGFunctions threeCoils"
  shows "midFieldResponseFunction d 1 1 1 2 36000000
     = 4 * pi\<^sup>2 * erfc (1 / 2) / 6 - erfc (13 / 24) / (13 / 2)"
proof -
  note f = threeCoils_fields[OF assms]
  have a: "sqrt (diffusivityGround d * 36000000) = 6"
    unfolding f by (simp add: sqrt_36)
  have b: "sqrt (6\<^sup>2 + 4 * (coilDepth d)\<^sup>2) = 13 / 2"
  proof -
    have "(6::real)\<^sup>2 + 4 * (coilDepth d)\<^sup>2 = 169 / 4"
      unfolding f by (simp add: power2_eq_square)
    then show ?thesis by (simp only: sqrt_169_4)
  qed
  show ?thesis
    unfolding midFieldResponseFunction_def Let_def threeCoils_distance[OF assms] a b by simp
qed

lemma midField_value_positive: "0 < 4 * pi\<^sup>2 * erfc (1 / 2) / 6 - erfc (13 / 24) / (13 / 2)"
proof -
  have p: "4 \<le> pi\<^sup>2"
  proof -
    have "2\<^sup>2 \<le> pi\<^sup>2" by (rule power_mono[OF pi_ge_two]) simp
    then show ?thesis by simp
  qed
  have e: "2 / 7 < erfc (1 / 2)" by (rule erfc_half_lower)
  have "4 * (2 / 7) \<le> pi\<^sup>2 * erfc (1 / 2)"
    by (rule mult_mono[OF p]) (use e in simp_all)
  then have l: "16 / 21 \<le> 4 * pi\<^sup>2 * erfc (1 / 2) / 6" by simp
  have "erfc (13 / 24) \<le> 1" by (rule erfc_le_one) simp_all
  then have u: "erfc (13 / 24) / (13 / 2) \<le> 2 / 13" by simp
  show ?thesis using l u by simp
qed

lemma threeCoils_kernel:
  assumes "d = GLHESlinky_calcGFunctions threeCoils"
  shows "ringKernel d 36000000 1 1 1 2 = 4 * pi\<^sup>2 * erfc (1 / 2) / 6 - erfc (13 / 24) / (13 / 2)"
  unfolding ringKernel_def threeCoils_distance[OF assms] threeCoils_fields[OF assms]
    threeCoils_midField[OF assms]
  by simp

text \<open>
  Claim C6. In \<^verbatim>\<open>GLHESlinky::calcGFunctions\<close>, at every time sample of the table, the pair of
  a ring \<open>(m, n)\<close> and a source ring \<open>(m1, n1)\<close> adds to the response of the field the
  symmetry weight of the source ring (1, or 0.5 or 0.25 for a source ring on the middle
  row or column of the field) times the response for the distance \<open>d\<close> of their centres:
  for \<open>d \<le> 2.5 + coilDiameter\<close> Simpson's rule in both angles with 33 nodes for the source
  ring and 561 for the other one, 1089 when the two rings are the same; for
  \<open>d > 10 + coilDiameter\<close> zero; otherwise the mid-field approximation. Beyond the near
  field no double integral is evaluated. The entry of the table is the sum of what the
  pairs add, over the source rings of a quarter of the field and all rings, scaled.
\<close>

theorem ring_response_by_distance:
  fixes d0 :: "'a GLHESlinky_scheme"
  assumes d: "d = GLHESlinky_calcGFunctions d0"
    and numRC: "numRC = \<lceil>of_int (numTrenches d) / (2::real)\<rceil>"
    and numLC: "numLC = \<lceil>of_int (numCoils d) / (2::real)\<rceil>"
    and NT: "NT \<in> {1..NPairs d}"
    and r: "m \<in> {1..numTrenches d}" "n \<in> {1..numCoils d}"
           "m1 \<in> {1..numTrenches d}" "n1 \<in> {1..numCoils d}"
  shows "contribution d (sampleTime NT) numRC numLC m1 n1 m n
           = symmetryWeight d numRC numLC m1 n1 * ringKernel d (sampleTime NT) m n m1 n1
       \<and> (2.5 + coilDiameter d < distToCenter d m n m1 n1
            \<longrightarrow> integralsEvaluated d (sampleTime NT) numRC numLC m1 n1 m n = 0)
       \<and> at1 (GFNC d) NT
           = (\<Sum>m1 = 1..numRC. \<Sum>n1 = 1..numLC. \<Sum>m = 1..numTrenches d. \<Sum>n = 1..numCoils d.
                contribution d (sampleTime NT) numRC numLC m1 n1 m n)
             * (coilDiameter d / 2)
             / (4 * pi * (if numTrenches d > 1 then 0.25 else 0.5)
                  * of_int (numTrenches d) * of_int (numCoils d))"
proof -
  have placed: "ringsPlaced d" by (rule calcGFunctions_rings(1)[OF d])
  have "1 \<le> numCoils d" using r(2) by simp
  then have lc: "numLC < 1 \<or> numLC \<le> numCoils d" unfolding numLC using half_ceiling by blast
  have "1 \<le> numTrenches d" using r(1) by simp
  then have rc: "numRC < 1 \<or> numRC \<le> numTrenches d" unfolding numRC using half_ceiling by blast
  note c = contribution_weighted[OF placed lc r]
  have g: "at1 (GFNC d) NT =
           fieldResponse d (sampleTime NT) numRC numLC
             * (coilDiameter d / 2)
             / (4 * pi * (if numTrenches d > 1 then 0.25 else 0.5)
                  * of_int (numTrenches d) * of_int (numCoils d))"
    unfolding numRC numLC by (rule calcGFunctions_rings(3)[OF d NT])
  show ?thesis
    using c(1) c(2) g unfolding fieldResponse_contributions[OF placed lc rc] by simp
qed

theorem ring_response_by_distance_witness:
  "contribution (GLHESlinky_calcGFunctions threeCoils) (sampleTime 25) 1 2 1 2 1 1
     = 1 / 2 * (4 * pi\<^sup>2 * erfc (1 / 2) / 6 - erfc (13 / 24) / (13 / 2))
   \<and> integralsEvaluated (GLHESlinky_calcGFunctions threeCoils) (sampleTime 25) 1 2 1 2 1 1 = 0
   \<and> at1 (GFNC (GLHESlinky_calcGFunctions threeCoils)) 25
       = (\<Sum>m1 = 1..1. \<Sum>n1 = 1..2. \<Sum>m = 1..1. \<Sum>n = 1..3.
            contribution (GLHESlinky_calcGFunctions threeCoils) (sampleTime 25) 1 2 m1 n1 m n)
         * (1 / 2) / (4 * pi * (1 / 2) * 1 * 3)"
proof -
  define d where "d = GLHESlinky_calcGFunctions threeCoils"
  note f = threeCoils_fields[OF d_def]
  have rc: "(1::int) = \<lceil>of_int (numTrenches d) / (2::real)\<rceil>"
    unfolding f by (simp add: ceiling_eq_iff)
  have lc: "(2::int) = \<lceil>of_int (numCoils d) / (2::real)\<rceil>"
    unfolding f by (simp add: ceiling_eq_iff)
  have NT: "(25::int) \<in> {1..NPairs d}" using threeCoils_samples[OF d_def] by simp
  have r: "(1::int) \<in> {1..numTrenches d}" "(1::int) \<in> {1..numCoils d}"
    "(1::int) \<in> {1..numTrenches d}" "(2::int) \<in> {1..numCoils d}"
    unfolding f by simp_all
  note th = ring_response_by_distance[OF d_def rc lc NT r]
  have far: "2.5 + coilDiameter d < distToCenter d 1 1 1 2"
    unfolding f threeCoils_distance[OF d_def] by simp
  show ?thesis
    using th far
    unfolding d_def[symmetric] sampleTime_25 threeCoils_weight[OF d_def]
      threeCoils_kernel[OF d_def] f
    by simp
qed

text \<open>
  Claim C6 as it is stated fails for a source ring on the middle column: at the time
  sample 25 of the three coils, whose table has at least 25 samples, the first ring is in
  the mid field of the middle ring, and what the pair adds is half the mid-field
  approximation, which is not zero.
\<close>

theorem mid_field_contribution_is_halved:
  "25 \<in> {1..NPairs (GLHESlinky_calcGFunctions threeCoils)}
   \<and> 2.5 + coilDiameter (GLHESlinky_calcGFunctions threeCoils)
        < distToCenter (GLHESlinky_calcGFunctions threeCoils) 1 1 1 2
   \<and> \<not> distToCenter (GLHESlinky_calcGFunctions threeCoils) 1 1 1 2
          > 10 + coilDiameter (GLHESlinky_calcGFunctions threeCoils)
   \<and> \<lceil>of_int (numTrenches (GLHESlinky_calcGFunctions threeCoils)) / (2::real)\<rceil> = 1
   \<and> \<lceil>of_int (numCoils (GLHESlinky_calcGFunctions threeCoils)) / (2::real)\<rceil> = 2
   \<and> contribution (GLHESlinky_calcGFunctions threeCoils) (sampleTime 25) 1 2 1 2 1 1
        \<noteq> midFieldResponseFunction (GLHESlinky_calcGFunctions threeCoils) 1 1 1 2 (sampleTime 25)"
proof -
  define d where "d = GLHESlinky_calcGFunctions threeCoils"
  note f = threeCoils_fields[OF d_def]
  have placed: "ringsPlaced d" by (rule calcGFunctions_rings(1)[OF d_def])
  have lc: "(2::int) < 1 \<or> 2 \<le> numCoils d" unfolding f by simp
  have r: "(1::int) \<in> {1..numTrenches d}" "(1::int) \<in> {1..numCoils d}"
    "(1::int) \<in> {1..numTrenches d}" "(2::int) \<in> {1..numCoils d}"
    unfolding f by simp_all
  have c: "contribution d 36000000 1 2 1 2 1 1
      = 1 / 2 * (4 * pi\<^sup>2 * erfc (1 / 2) / 6 - erfc (13 / 24) / (13 / 2))"
    unfolding contribution_weighted(1)[OF placed lc r] threeCoils_weight[OF d_def]
      threeCoils_kernel[OF d_def] ..
  have ne: "contribution d 36000000 1 2 1 2 1 1 \<noteq> midFieldResponseFunction d 1 1 1 2 36000000"
    unfolding c threeCoils_midField[OF d_def] using midField_value_positive by simp
  have NT: "(25::int) \<in> {1..NPairs d}" using threeCoils_samples[OF d_def] by simp
  have dist: "2.5 + coilDiameter d < distToCenter d 1 1 1 2"
    "\<not> distToCenter d 1 1 1 2 > 10 + coilDiameter d"
    unfolding f threeCoils_distance[OF d_def] by simp_all
  have h: "\<lceil>of_int (numTrenches d) / (2::real)\<rceil> = 1" "\<lceil>of_int (numCoils d) / (2::real)\<rceil> = 2"
    unfolding f by (simp_all add: ceiling_eq_iff)
  show ?thesis
    using NT dist h ne unfolding d_def[symmetric] sampleTime_25 by simp
qed

end
